theory Spec2Isabelle
  imports Main "HOL-Library.Char_ord" "HOL-Library.List_Lexorder" "HOL-Library.Sublist"
begin

section \<open>Exceptions\<close>

text \<open>
  Every exception that \<^verbatim>\<open>daily_wx.py\<close> or one of the library calls it makes can raise is a
  value of \<open>error\<close>. A function that can raise returns \<open>error + 'a\<close>, with \<open>Inl\<close> the
  exception; a function with effects also returns the state it leaves behind.
\<close>

datatype error =
    ValueError
  | KeyError string
  | StopIteration
  | OverflowError
  | HTTPError int
  | RequestException
  | FileNotFoundError
  | FileExistsError
  | IsADirectoryError
  | NotADirectoryError
  | UnidentifiedImageError
  | SlackApiError

section \<open>Strings and dictionaries\<close>

text \<open>
  A Python \<^verbatim>\<open>str\<close> is a \<open>string\<close> whose characters are the code points below 256.
  \<^verbatim>\<open>str.strip()\<close> removes the characters for which \<^verbatim>\<open>str.isspace\<close> holds: in that range
  these are 9 to 13, 28 to 32, 133 and 160.
\<close>

definition isspace :: "char \<Rightarrow> bool" where
  "isspace c \<longleftrightarrow> (of_char c :: nat) \<in> {9, 10, 11, 12, 13, 28, 29, 30, 31, 32, 133, 160}"

definition lstrip :: "string \<Rightarrow> string" where
  "lstrip s = dropWhile isspace s"

definition rstrip :: "string \<Rightarrow> string" where
  "rstrip s = rev (dropWhile isspace (rev s))"

definition strip :: "string \<Rightarrow> string" where
  "strip s = rstrip (lstrip s)"

definition startswith :: "string \<Rightarrow> string \<Rightarrow> bool" where
  "startswith s p \<longleftrightarrow> take (length p) s = p"

definition endswith :: "string \<Rightarrow> string \<Rightarrow> bool" where
  "endswith s p \<longleftrightarrow> length p \<le> length s \<and> drop (length s - length p) s = p"

text \<open>\<^verbatim>\<open>s.split(c, 1)\<close>: one piece when \<open>c\<close> does not occur, otherwise the text before the
  first \<open>c\<close> and the text after it.\<close>

definition split_once :: "char \<Rightarrow> string \<Rightarrow> string list" where
  "split_once c s =
     (if c \<in> set s then [takeWhile (\<lambda>x. x \<noteq> c) s, tl (dropWhile (\<lambda>x. x \<noteq> c) s)] else [s])"

text \<open>\<^verbatim>\<open>s.split(c)\<close> and \<^verbatim>\<open>c.join(parts)\<close>.\<close>

fun split_acc :: "char \<Rightarrow> string \<Rightarrow> string \<Rightarrow> string list" where
  "split_acc c cur [] = [cur]"
| "split_acc c cur (x # xs) =
     (if x = c then cur # split_acc c [] xs else split_acc c (cur @ [x]) xs)"

definition split :: "char \<Rightarrow> string \<Rightarrow> string list" where
  "split c s = split_acc c [] s"

fun join :: "string \<Rightarrow> string list \<Rightarrow> string" where
  "join sep [] = []"
| "join sep [p] = p"
| "join sep (p # q # ps) = p @ sep @ join sep (q # ps)"

text \<open>
  A \<^verbatim>\<open>dict\<close> keeps its keys in insertion order: an association list with distinct keys.
  \<^verbatim>\<open>d[k] = v\<close> replaces the value of a key in place and appends a new key at the end.
\<close>

type_synonym ('k, 'v) dict = "('k \<times> 'v) list"

fun dict_set :: "('k, 'v) dict \<Rightarrow> 'k \<Rightarrow> 'v \<Rightarrow> ('k, 'v) dict" where
  "dict_set [] k v = [(k, v)]"
| "dict_set ((k', v') # d) k v =
     (if k' = k then (k, v) # d else (k', v') # dict_set d k v)"

definition dict_get :: "('k, 'v) dict \<Rightarrow> 'k \<Rightarrow> 'v option" where
  "dict_get d k = map_of d k"

text \<open>\<^verbatim>\<open>d[k]\<close> on a dictionary with string keys raises \<^verbatim>\<open>KeyError\<close> for a missing key.\<close>

definition dict_item :: "(string, 'v) dict \<Rightarrow> string \<Rightarrow> error + 'v" where
  "dict_item d k = (case map_of d k of None \<Rightarrow> Inl (KeyError k) | Some v \<Rightarrow> Inr v)"

section \<open>The secret loader\<close>

text \<open>
  \<^verbatim>\<open>path_obj.open('r')\<close> reads text with universal newlines: \<^verbatim>\<open>\r\n\<close> and \<^verbatim>\<open>\r\<close> arrive as
  \<^verbatim>\<open>\n\<close>. \<^verbatim>\<open>f.readlines()\<close> cuts the text after every \<^verbatim>\<open>\n\<close> and keeps the terminator.
\<close>

fun universal_newlines :: "string \<Rightarrow> string" where
  "universal_newlines [] = []"
| "universal_newlines [c] = (if c = CHR 0x0D then [CHR 0x0A] else [c])"
| "universal_newlines (c # d # cs) =
     (if c = CHR 0x0D \<and> d = CHR 0x0A then CHR 0x0A # universal_newlines cs
      else if c = CHR 0x0D then CHR 0x0A # universal_newlines (d # cs)
      else c # universal_newlines (d # cs))"

fun readlines_acc :: "string \<Rightarrow> string \<Rightarrow> string list" where
  "readlines_acc cur [] = (if cur = [] then [] else [cur])"
| "readlines_acc cur (c # cs) =
     (if c = CHR 0x0A then (cur @ [c]) # readlines_acc [] cs else readlines_acc (cur @ [c]) cs)"

definition readlines :: "string \<Rightarrow> string list" where
  "readlines text = readlines_acc [] (universal_newlines text)"

text \<open>
  The loop of \<^verbatim>\<open>read_secrets\<close> over the lines, with the dictionary built so far.
  \<^verbatim>\<open>k, v = item.split('=', 1)\<close> raises \<^verbatim>\<open>ValueError\<close> when the split yields one piece.
\<close>

fun read_items :: "string list \<Rightarrow> (string, string) dict \<Rightarrow> error + (string, string) dict" where
  "read_items [] secrets = Inr secrets"
| "read_items (item # items) secrets =
     (if startswith (strip item) ''#'' \<or> strip item = '''' then read_items items secrets
      else case split_once CHR ''='' item of
             [k, v] \<Rightarrow> read_items items (dict_set secrets k (strip v))
           | _ \<Rightarrow> Inl ValueError)"

text \<open>The disk holds the text files outside the data directory, by path.\<close>

definition read_secrets :: "(string \<rightharpoonup> string) \<Rightarrow> string \<Rightarrow> error + (string, string) dict" where
  "read_secrets disk path_obj =
     (case disk path_obj of
        None \<Rightarrow> Inl FileNotFoundError
      | Some text \<Rightarrow> read_items (readlines text) [])"

text \<open>A line is a comment or blank line when its stripped form starts with \<open>#\<close> or is empty.\<close>

definition comment_or_blank :: "string \<Rightarrow> bool" where
  "comment_or_blank item \<longleftrightarrow> (case strip item of [] \<Rightarrow> True | c # _ \<Rightarrow> c = CHR ''#'')"

section \<open>Dates\<close>

text \<open>
  \<^verbatim>\<open>TODAY = datetime.datetime.today()\<close> is read once when the module is loaded. Only its
  calendar date matters to the program, so a \<^verbatim>\<open>datetime\<close> is its proleptic Gregorian
  ordinal (\<^verbatim>\<open>toordinal()\<close>: day 1 is 0001-01-01, the last day is 9999-12-31). The
  conversions are those of the \<^verbatim>\<open>datetime\<close> module.
\<close>

definition MAXORDINAL :: int where
  "MAXORDINAL = 3652059"

definition DAYS_IN_MONTH :: "int list" where
  "DAYS_IN_MONTH = [-1, 31, 28, 31, 30, 31, 30, 31, 31, 30, 31, 30, 31]"

definition DAYS_BEFORE_MONTH :: "int list" where
  "DAYS_BEFORE_MONTH = [-1, 0, 31, 59, 90, 120, 151, 181, 212, 243, 273, 304, 334]"

definition is_leap :: "int \<Rightarrow> bool" where
  "is_leap year \<longleftrightarrow> year mod 4 = 0 \<and> (year mod 100 \<noteq> 0 \<or> year mod 400 = 0)"

definition days_before_year :: "int \<Rightarrow> int" where
  "days_before_year year = (let y = year - 1 in y * 365 + y div 4 - y div 100 + y div 400)"

definition days_before_month :: "int \<Rightarrow> int \<Rightarrow> int" where
  "days_before_month year month =
     DAYS_BEFORE_MONTH ! nat month + (if month > 2 \<and> is_leap year then 1 else 0)"

definition ymd2ord :: "int \<Rightarrow> int \<Rightarrow> int \<Rightarrow> int" where
  "ymd2ord year month day = days_before_year year + days_before_month year month + day"

text \<open>The month and the day of the month of day \<open>n\<close> of a year, counted from 0: the
  estimate \<open>(n + 50) div 32\<close> of the month is exact or one too large.\<close>

definition month_and_day :: "bool \<Rightarrow> int \<Rightarrow> int \<times> int" where
  "month_and_day leapyear n =
     (let month = (n + 50) div 32;
          preceding = DAYS_BEFORE_MONTH ! nat month + (if month > 2 \<and> leapyear then 1 else 0)
      in if preceding > n
         then let month = month - 1;
                  preceding = preceding
                    - (DAYS_IN_MONTH ! nat month + (if month = 2 \<and> leapyear then 1 else 0))
              in (month, n - preceding + 1)
         else (month, n - preceding + 1))"

definition ord2ymd :: "int \<Rightarrow> int \<times> int \<times> int" where
  "ord2ymd ordinal =
     (let n = ordinal - 1;
          n400 = n div 146097; n = n mod 146097;
          n100 = n div 36524; n = n mod 36524;
          n4 = n div 1461; n = n mod 1461;
          n1 = n div 365; n = n mod 365;
          year = n400 * 400 + 1 + n100 * 100 + n4 * 4 + n1
      in if n1 = 4 \<or> n100 = 4 then (year - 1, 12, 31)
         else
           let leapyear = (n1 = 3 \<and> (n4 \<noteq> 24 \<or> n100 = 3))
           in case month_and_day leapyear n of (month, day) \<Rightarrow> (year, month, day))"

text \<open>
  \<^verbatim>\<open>TODAY - datetime.timedelta(days=x)\<close> goes through the ordinal and raises
  \<^verbatim>\<open>OverflowError\<close> when the result leaves the range of \<^verbatim>\<open>datetime\<close>.
\<close>

definition minus_days :: "int \<Rightarrow> int \<Rightarrow> error + int" where
  "minus_days date x =
     (if 0 < date - x \<and> date - x \<le> MAXORDINAL then Inr (date - x) else Inl OverflowError)"

text \<open>Decimal digits, and the zero-padded fields of \<^verbatim>\<open>strftime\<close>.\<close>

fun str_nat :: "nat \<Rightarrow> string" where
  "str_nat n = (if n < 10 then [char_of (48 + n)] else str_nat (n div 10) @ [char_of (48 + n mod 10)])"

declare str_nat.simps [simp del]

definition zfill :: "nat \<Rightarrow> string \<Rightarrow> string" where
  "zfill width s = replicate (width - length s) CHR ''0'' @ s"

definition strftime_Ymd :: "int \<Rightarrow> string" where
  "strftime_Ymd date =
     (case ord2ymd date of (year, month, day) \<Rightarrow>
        zfill 4 (str_nat (nat year)) @ zfill 2 (str_nat (nat month)) @ zfill 2 (str_nat (nat day)))"

text \<open>\<^verbatim>\<open>%F\<close> is \<^verbatim>\<open>%Y-%m-%d\<close>.\<close>

definition strftime_F :: "int \<Rightarrow> string" where
  "strftime_F date =
     (case ord2ymd date of (year, month, day) \<Rightarrow>
        zfill 4 (str_nat (nat year)) @ ''-'' @ zfill 2 (str_nat (nat month)) @ ''-''
          @ zfill 2 (str_nat (nat day)))"

text \<open>\<^verbatim>\<open>range(span_days, 0, -1)\<close> counts down from \<open>span_days\<close> to 1.\<close>

definition range_down :: "int \<Rightarrow> int list" where
  "range_down span_days = rev [1..span_days]"

text \<open>
  The dates of the list comprehension at the head of \<^verbatim>\<open>retrieve_imgs\<close>, oldest first; the
  first subtraction that overflows ends the comprehension.
\<close>

fun date_loop :: "int \<Rightarrow> int list \<Rightarrow> error + int list" where
  "date_loop today [] = Inr []"
| "date_loop today (x # xs) =
     (case minus_days today x of
        Inl e \<Rightarrow> Inl e
      | Inr d \<Rightarrow> (case date_loop today xs of Inl e \<Rightarrow> Inl e | Inr ds \<Rightarrow> Inr (d # ds)))"

definition date_window :: "int \<Rightarrow> int \<Rightarrow> error + int list" where
  "date_window today span_days = date_loop today (range_down span_days)"

definition dates_str :: "int \<Rightarrow> int \<Rightarrow> error + string list" where
  "dates_str today span_days =
     (case date_window today span_days of
        Inl e \<Rightarrow> Inl e
      | Inr ds \<Rightarrow> Inr (map strftime_Ymd ds))"

section \<open>The data directory\<close>

text \<open>
  The tree under \<^verbatim>\<open>DATA_DIR\<close> is a table from paths to nodes. A path is the list of its
  components below \<^verbatim>\<open>DATA_DIR\<close>, so \<open>[]\<close> is \<^verbatim>\<open>DATA_DIR\<close> itself; the entries below a
  directory are those whose path extends the directory's. Identifiers are joined to
  \<^verbatim>\<open>DATA_DIR\<close> as relative paths.
\<close>

type_synonym path = "string list"

datatype node = File string | Dir

type_synonym filesystem = "(path, node) dict"

definition is_file :: "filesystem \<Rightarrow> path \<Rightarrow> bool" where
  "is_file fs p \<longleftrightarrow> (case map_of fs p of Some (File _) \<Rightarrow> True | _ \<Rightarrow> False)"

definition is_dir :: "filesystem \<Rightarrow> path \<Rightarrow> bool" where
  "is_dir fs p \<longleftrightarrow> map_of fs p = Some Dir"

definition parse_parts :: "string \<Rightarrow> path" where
  "parse_parts s = filter (\<lambda>part. part \<noteq> '''' \<and> part \<noteq> ''.'') (split CHR ''/'' s)"

definition joinpath :: "path \<Rightarrow> string \<Rightarrow> path" where
  "joinpath base s = base @ parse_parts s"

definition name :: "path \<Rightarrow> string" where
  "name p = (if p = [] then '''' else last p)"

definition children :: "filesystem \<Rightarrow> path \<Rightarrow> path list" where
  "children fs d = filter (\<lambda>p. p \<noteq> [] \<and> butlast p = d) (map fst fs)"

definition directories_under :: "filesystem \<Rightarrow> path \<Rightarrow> path list" where
  "directories_under fs d = d # filter (\<lambda>p. strict_prefix d p \<and> is_dir fs p) (map fst fs)"

subsection \<open>Shell patterns\<close>

text \<open>
  \<^verbatim>\<open>fnmatch\<close> on one path component: \<open>*\<close> matches any text, \<open>?\<close> one character,
  \<open>[seq]\<close> one character of \<open>seq\<close> and \<open>[!seq]\<close> one character not in it, where \<open>seq\<close>
  lists characters and ranges \<open>a-b\<close>; a \<open>[\<close> that is never closed stands for itself.
  The closing bracket is the first \<open>]\<close> after the opening one, not counting a \<open>]\<close> that
  comes first in the class or right after the \<open>!\<close>.
\<close>

definition class_end :: "string \<Rightarrow> nat option" where
  "class_end p =
     (let j = (if p \<noteq> [] \<and> hd p = CHR ''!'' then 1 else 0);
          j = (if j < length p \<and> p ! j = CHR '']'' then j + 1 else j);
          k = j + length (takeWhile (\<lambda>c. c \<noteq> CHR '']'') (drop j p))
      in if k < length p then Some k else None)"

fun class_items :: "string \<Rightarrow> (char \<times> char) list" where
  "class_items (lo # dash # hi # rest) =
     (if dash = CHR ''-'' then (lo, hi) # class_items rest
      else (lo, lo) # class_items (dash # hi # rest))"
| "class_items [c, d] = [(c, c), (d, d)]"
| "class_items [c] = [(c, c)]"
| "class_items [] = []"

definition in_class :: "string \<Rightarrow> char \<Rightarrow> bool" where
  "in_class stuff c =
     (if stuff \<noteq> [] \<and> hd stuff = CHR ''!''
      then \<not> list_ex (\<lambda>(lo, hi). lo \<le> c \<and> c \<le> hi) (class_items (tl stuff))
      else list_ex (\<lambda>(lo, hi). lo \<le> c \<and> c \<le> hi) (class_items stuff))"

fun fnmatch :: "string \<Rightarrow> string \<Rightarrow> bool" where
  "fnmatch [] s = (s = [])"
| "fnmatch (c # p) [] = (c = CHR ''*'' \<and> fnmatch p [])"
| "fnmatch (c # p) (x # s) =
     (if c = CHR ''*'' then fnmatch p (x # s) \<or> fnmatch (c # p) s
      else if c = CHR ''?'' then fnmatch p s
      else if c = CHR ''['' then
        (case class_end p of
           None \<Rightarrow> x = CHR ''['' \<and> fnmatch p s
         | Some j \<Rightarrow> in_class (take j p) x \<and> fnmatch (drop (Suc j) p) s)
      else x = c \<and> fnmatch p s)"

subsection \<open>Globbing\<close>

text \<open>
  \<^verbatim>\<open>Path.glob(pattern)\<close>: the pattern is cut at \<open>/\<close> into components. The component
  \<open>**\<close> selects the directory itself and every directory below it; any other component
  selects the children whose name matches it, and only directories when more components
  follow. A component that contains \<open>**\<close> and more is refused with \<^verbatim>\<open>ValueError\<close>, and a
  base that is not a directory yields nothing. The order of the result is the order in
  which the table lists the entries.
\<close>

fun has_double_star :: "string \<Rightarrow> bool" where
  "has_double_star (c # d # rest) = ((c = CHR ''*'' \<and> d = CHR ''*'') \<or> has_double_star (d # rest))"
| "has_double_star _ = False"

fun select_from :: "filesystem \<Rightarrow> string list \<Rightarrow> path \<Rightarrow> path list" where
  "select_from fs [] cur = [cur]"
| "select_from fs (part # parts) cur =
     (if part = ''**''
      then remdups (concat (map (select_from fs parts) (directories_under fs cur)))
      else concat (map (select_from fs parts)
             (filter (\<lambda>c. fnmatch part (name c) \<and> (parts = [] \<or> is_dir fs c)) (children fs cur))))"

definition glob :: "filesystem \<Rightarrow> path \<Rightarrow> string \<Rightarrow> error + path list" where
  "glob fs base pattern =
     (let parts = parse_parts pattern in
      if parts = [] \<or> list_ex (\<lambda>part. part \<noteq> ''**'' \<and> has_double_star part) parts
      then Inl ValueError
      else if is_dir fs base then Inr (select_from fs parts base) else Inr [])"

subsection \<open>Writing\<close>

text \<open>
  \<^verbatim>\<open>mkdir(parents=True, exist_ok=True)\<close> creates the directory and its missing ancestors and
  accepts directories that exist; it fails when the path or an ancestor is a file.
  \<^verbatim>\<open>open(path, 'wb')\<close> needs the parent directory and replaces the content of the file.
\<close>

definition mkdir_parents :: "filesystem \<Rightarrow> path \<Rightarrow> error + filesystem" where
  "mkdir_parents fs p =
     (if list_ex (is_file fs) (butlast (prefixes p)) then Inl NotADirectoryError
      else if is_file fs p then Inl FileExistsError
      else Inr (fold (\<lambda>q fs. if map_of fs q = None then fs @ [(q, Dir)] else fs) (prefixes p) fs))"

definition write_bytes :: "filesystem \<Rightarrow> path \<Rightarrow> string \<Rightarrow> error + filesystem" where
  "write_bytes fs p data =
     (if is_file fs (butlast p) then Inl NotADirectoryError
      else if \<not> is_dir fs (butlast p) then Inl FileNotFoundError
      else if p = [] \<or> is_dir fs p then Inl IsADirectoryError
      else Inr (dict_set fs p (File data)))"

section \<open>The image retriever\<close>

text \<open>
  \<^verbatim>\<open>requests.get(url)\<close> returns a response or raises; the archive is a function from URLs
  to outcomes. \<^verbatim>\<open>raise_for_status()\<close> raises \<^verbatim>\<open>HTTPError\<close> for the client and server
  error statuses 400 to 599 and returns for every other status.
\<close>

record response =
  status_code :: int
  content :: string

definition raise_for_status :: "response \<Rightarrow> error option" where
  "raise_for_status resp =
     (if 400 \<le> status_code resp \<and> status_code resp < 600
      then Some (HTTPError (status_code resp)) else None)"

text \<open>
  The state a run of the retriever works on: the data directory, the URLs requested so
  far, oldest first, and the seconds spent in \<^verbatim>\<open>time.sleep\<close>. Log output is not part of
  the state.
\<close>

record world =
  files :: filesystem
  requested :: "string list"
  slept :: nat

definition BASE_URL :: string where
  "BASE_URL = ''https://weather.ral.ucar.edu''"

text \<open>The two nested loops that fill \<^verbatim>\<open>url_dict\<close>: filename to URL, for the files not yet
  in \<open>filenames\<close>.\<close>

definition remote_filename :: "string \<Rightarrow> string \<Rightarrow> string \<Rightarrow> string \<Rightarrow> string" where
  "remote_filename dt tod model filetype = dt @ ''_'' @ tod @ ''0000_'' @ model @ filetype"

definition remote_url :: "string \<Rightarrow> string \<Rightarrow> string" where
  "remote_url dt filename = BASE_URL @ ''/data/upper/'' @ dt @ ''/'' @ filename"

definition queue_tod ::
  "string \<Rightarrow> string \<Rightarrow> string list \<Rightarrow> string \<Rightarrow> string \<Rightarrow> (string, string) dict \<Rightarrow> (string, string) dict"
where
  "queue_tod model filetype filenames dt tod url_dict =
     (let filename = remote_filename dt tod model filetype in
      if filename \<in> set filenames then url_dict
      else dict_set url_dict filename (remote_url dt filename))"

definition build_url_dict ::
  "string \<Rightarrow> string \<Rightarrow> string list \<Rightarrow> string list \<Rightarrow> (string, string) dict"
where
  "build_url_dict model filetype filenames dates =
     fold (\<lambda>dt url_dict. fold (queue_tod model filetype filenames dt) [''00'', ''12''] url_dict)
       dates []"

text \<open>
  The download loop over \<^verbatim>\<open>enumerate(url_dict.items())\<close>, \<open>i\<close> being the index of the
  head of the queue. An exception ends the loop and leaves the state as it is then.
\<close>

fun retrieve_loop ::
  "(string \<Rightarrow> error + response) \<Rightarrow> string \<Rightarrow> nat \<Rightarrow> (string \<times> string) list \<Rightarrow> world
     \<Rightarrow> (error + unit) \<times> world"
where
  "retrieve_loop http model i [] w = (Inr (), w)"
| "retrieve_loop http model i ((filename, url) # queue) w =
     (let filepath = joinpath [] (model @ ''/'' @ filename) in
      case (if i = 0 then mkdir_parents (files w) (butlast filepath) else Inr (files w)) of
        Inl e \<Rightarrow> (Inl e, w)
      | Inr fs \<Rightarrow>
          let w = w\<lparr>files := fs, requested := requested w @ [url]\<rparr> in
          (case http url of
             Inl e \<Rightarrow> (Inl e, w)
           | Inr resp \<Rightarrow>
               if status_code resp = 200 then
                 (case write_bytes (files w) filepath (content resp) of
                    Inl e \<Rightarrow> (Inl e, w)
                  | Inr fs \<Rightarrow>
                      retrieve_loop http model (i + 1) queue (w\<lparr>files := fs, slept := slept w + 3\<rparr>))
               else
                 (case raise_for_status resp of
                    Some e \<Rightarrow> (Inl e, w)
                  | None \<Rightarrow> retrieve_loop http model (i + 1) queue w)))"

definition scan_filenames :: "filesystem \<Rightarrow> string \<Rightarrow> string \<Rightarrow> error + string list" where
  "scan_filenames fs model filetype =
     (case glob fs [] (''**/*'' @ model @ filetype) of
        Inl e \<Rightarrow> Inl e
      | Inr found \<Rightarrow> Inr (map name (filter (is_file fs) found)))"

definition retrieve_imgs ::
  "int \<Rightarrow> (string \<Rightarrow> error + response) \<Rightarrow> string \<Rightarrow> string \<Rightarrow> int \<Rightarrow> world
     \<Rightarrow> (error + unit) \<times> world"
where
  "retrieve_imgs today http model filetype span_days w =
     (case dates_str today span_days of
        Inl e \<Rightarrow> (Inl e, w)
      | Inr dates \<Rightarrow>
          (case scan_filenames (files w) model filetype of
             Inl e \<Rightarrow> (Inl e, w)
           | Inr filenames \<Rightarrow>
               retrieve_loop http model 0 (build_url_dict model filetype filenames dates) w))"

text \<open>
  A name is literal when none of its characters is an operator of a shell pattern or the
  path separator. A filename is cached when the data directory exists and a regular file
  of that name lies in one of the directories of its tree.
\<close>

definition literal_name :: "string \<Rightarrow> bool" where
  "literal_name s \<longleftrightarrow>
     (\<forall>c \<in> set s. c \<noteq> CHR ''*'' \<and> c \<noteq> CHR ''?'' \<and> c \<noteq> CHR ''['' \<and> c \<noteq> CHR ''/'')"

definition cached :: "filesystem \<Rightarrow> string \<Rightarrow> bool" where
  "cached fs filename \<longleftrightarrow>
     is_dir fs [] \<and>
     (\<exists>p \<in> set (map fst fs). p \<noteq> [] \<and> name p = filename \<and> is_file fs p \<and> is_dir fs (butlast p))"

section \<open>The animation builder\<close>

text \<open>
  \<^verbatim>\<open>Image.open\<close> and the GIF encoder of \<^verbatim>\<open>img.save\<close> belong to the imaging library and are
  parameters: \<open>decode\<close> reads the bytes of a file as an image, if they are one, and
  \<open>encode frames duration loop\<close> is the file written for the frames handed to the encoder.
  \<^verbatim>\<open>img.save\<close> opens the output for writing, which empties an existing file, before the
  encoder draws the remaining frames from the generator; when that fails, a file the call
  created is removed again.
\<close>

definition image_open :: "(string \<Rightarrow> 'img option) \<Rightarrow> filesystem \<Rightarrow> path \<Rightarrow> error + 'img" where
  "image_open decode fs p =
     (case map_of fs p of
        None \<Rightarrow> Inl FileNotFoundError
      | Some Dir \<Rightarrow> Inl IsADirectoryError
      | Some (File data) \<Rightarrow>
          (case decode data of None \<Rightarrow> Inl UnidentifiedImageError | Some img \<Rightarrow> Inr img))"

fun open_all :: "(string \<Rightarrow> 'img option) \<Rightarrow> filesystem \<Rightarrow> path list \<Rightarrow> error + 'img list" where
  "open_all decode fs [] = Inr []"
| "open_all decode fs (p # ps) =
     (case image_open decode fs p of
        Inl e \<Rightarrow> Inl e
      | Inr img \<Rightarrow> (case open_all decode fs ps of Inl e \<Rightarrow> Inl e | Inr imgs \<Rightarrow> Inr (img # imgs)))"

definition gif_path :: "int \<Rightarrow> string \<Rightarrow> path" where
  "gif_path today model = joinpath [] (''gifs/'' @ model @ ''_'' @ strftime_F today @ ''.gif'')"

definition frame_paths :: "filesystem \<Rightarrow> string \<Rightarrow> path list" where
  "frame_paths fs model =
     (case glob fs (joinpath [] model) ''**/*'' of Inl e \<Rightarrow> [] | Inr found \<Rightarrow> sort found)"

definition build_gif ::
  "(string \<Rightarrow> 'img option) \<Rightarrow> ('img list \<Rightarrow> nat \<Rightarrow> nat \<Rightarrow> string) \<Rightarrow> int \<Rightarrow> string \<Rightarrow> filesystem
     \<Rightarrow> (error + unit) \<times> filesystem"
where
  "build_gif decode encode today model fs =
     (case frame_paths fs model of
        [] \<Rightarrow> (Inl StopIteration, fs)
      | f # rest \<Rightarrow>
          (case image_open decode fs f of
             Inl e \<Rightarrow> (Inl e, fs)
           | Inr img \<Rightarrow>
               (case write_bytes fs (gif_path today model) '''' of
                  Inl e \<Rightarrow> (Inl e, fs)
                | Inr fs1 \<Rightarrow>
                    (case open_all decode fs1 rest of
                       Inl e \<Rightarrow> (Inl e, if map_of fs (gif_path today model) = None then fs else fs1)
                     | Inr imgs \<Rightarrow>
                         (Inr (), dict_set fs1 (gif_path today model)
                                    (File (encode (img # imgs) 300 3)))))))"

section \<open>The report publisher\<close>

text \<open>
  The chat client is a parameter. \<^verbatim>\<open>files_upload_v2(channel, file, title)\<close> returns a
  response with its \<^verbatim>\<open>ok\<close> flag and the identifier of the file, or raises;
  \<^verbatim>\<open>chat_postMessage(channel, text, blocks)\<close> returns or raises.
\<close>

datatype json = JString string | JBool bool | JObject "(string \<times> json) list"

record upload_response =
  ok :: bool
  file_id :: string

record web_client =
  files_upload_v2 :: "string option \<Rightarrow> string \<Rightarrow> string \<Rightarrow> error + upload_response"
  chat_postMessage :: "string \<Rightarrow> string \<Rightarrow> json list \<Rightarrow> error + unit"

type_synonym model_map = "(string, (string, string) dict) dict"

text \<open>
  What a run of the publisher leaves behind: the model result map, which the caller
  shares, the titles of the uploads made, the messages posted, each with channel, text
  and blocks, and the seconds slept.
\<close>

record publisher =
  result_map :: model_map
  uploads :: "string list"
  posted :: "(string \<times> string \<times> json list) list"
  paused :: nat

text \<open>The model identifier of an animation: all \<open>_\<close>-separated tokens of its name but the last.\<close>

definition model_of_gif :: "path \<Rightarrow> string" where
  "model_of_gif gif = join ''_'' (butlast (split CHR ''_'' (name gif)))"

definition read_bytes :: "filesystem \<Rightarrow> path \<Rightarrow> error + string" where
  "read_bytes fs p =
     (case map_of fs p of
        None \<Rightarrow> Inl FileNotFoundError
      | Some Dir \<Rightarrow> Inl IsADirectoryError
      | Some (File data) \<Rightarrow> Inr data)"

text \<open>\<^verbatim>\<open>model_map[mname]['gif-file-id'] = file_id\<close>: the entry of the model must exist.\<close>

definition record_file_id :: "model_map \<Rightarrow> string \<Rightarrow> string \<Rightarrow> error + model_map" where
  "record_file_id model_map mname fid =
     (case dict_item model_map mname of
        Inl e \<Rightarrow> Inl e
      | Inr model_dict \<Rightarrow> Inr (dict_set model_map mname (dict_set model_dict ''gif-file-id'' fid)))"

fun upload_loop ::
  "web_client \<Rightarrow> (string, string) dict \<Rightarrow> filesystem \<Rightarrow> path list \<Rightarrow> publisher
     \<Rightarrow> (error + unit) \<times> publisher"
where
  "upload_loop client props fs [] st = (Inr (), st)"
| "upload_loop client props fs (gif # gifs) st =
     (let mname = model_of_gif gif in
      case read_bytes fs gif of
        Inl e \<Rightarrow> (Inl e, st)
      | Inr data \<Rightarrow>
          (case files_upload_v2 client (map_of props ''private-chan'') data mname of
             Inl e \<Rightarrow> (Inl e, st)
           | Inr fupld_resp \<Rightarrow>
               let st = st\<lparr>uploads := uploads st @ [mname]\<rparr> in
               if ok fupld_resp then
                 (case record_file_id (result_map st) mname (file_id fupld_resp) of
                    Inl e \<Rightarrow> (Inl e, st)
                  | Inr model_map \<Rightarrow> upload_loop client props fs gifs (st\<lparr>result_map := model_map\<rparr>))
               else upload_loop client props fs gifs st))"

definition header_block :: "int \<Rightarrow> json" where
  "header_block today =
     JObject [(''type'', JString ''header''),
              (''text'', JObject [(''type'', JString ''plain_text''),
                                  (''text'', JString (''WX Report for '' @ strftime_F today)),
                                  (''emoji'', JBool True)])]"

definition image_block :: "string \<Rightarrow> string \<Rightarrow> json" where
  "image_block title fid =
     JObject [(''type'', JString ''image''),
              (''title'', JObject [(''type'', JString ''plain_text''),
                                   (''text'', JString title),
                                   (''emoji'', JBool True)]),
              (''slack_file'', JObject [(''id'', JString fid)]),
              (''alt_text'', JString ''poopie'')]"

definition divider_block :: json where
  "divider_block = JObject [(''type'', JString ''divider'')]"

text \<open>The loop over \<^verbatim>\<open>model_map.items()\<close> that appends to \<open>blocks\<close>.\<close>

fun append_blocks :: "(string \<times> (string, string) dict) list \<Rightarrow> json list \<Rightarrow> error + json list" where
  "append_blocks [] blocks = Inr blocks"
| "append_blocks ((mname, model_dict) # rest) blocks =
     (case dict_item model_dict ''name'' of
        Inl e \<Rightarrow> Inl e
      | Inr title \<Rightarrow>
          (case dict_item model_dict ''gif-file-id'' of
             Inl e \<Rightarrow> Inl e
           | Inr fid \<Rightarrow> append_blocks rest (blocks @ [image_block title fid] @ [divider_block])))"

definition todays_gifs :: "int \<Rightarrow> filesystem \<Rightarrow> error + path list" where
  "todays_gifs today fs =
     (case glob fs (joinpath [] ''gifs'') (''*'' @ strftime_F today @ ''.gif'') of
        Inl e \<Rightarrow> Inl e
      | Inr found \<Rightarrow> Inr (filter (is_file fs) found))"

definition send_slack_message_blocks ::
  "int \<Rightarrow> filesystem \<Rightarrow> (string, string) dict \<Rightarrow> web_client \<Rightarrow> publisher
     \<Rightarrow> (error + unit) \<times> publisher"
where
  "send_slack_message_blocks today fs props bot_client st =
     (case todays_gifs today fs of
        Inl e \<Rightarrow> (Inl e, st)
      | Inr gifs \<Rightarrow>
          (case upload_loop bot_client props fs gifs st of
             (Inl e, st) \<Rightarrow> (Inl e, st)
           | (Inr _, st) \<Rightarrow>
               (case append_blocks (result_map st) [header_block today] of
                  Inl e \<Rightarrow> (Inl e, st)
                | Inr blocks \<Rightarrow>
                    let st = st\<lparr>paused := paused st + 3\<rparr> in
                    (case dict_item props ''public-chan'' of
                       Inl e \<Rightarrow> (Inl e, st)
                     | Inr channel \<Rightarrow>
                         (case chat_postMessage bot_client channel ''Daily WX report incoming!'' blocks of
                            Inl e \<Rightarrow> (Inl e, st)
                          | Inr _ \<Rightarrow>
                              (Inr (), st\<lparr>posted := posted st
                                 @ [(channel, ''Daily WX report incoming!'', blocks)]\<rparr>))))))"

section \<open>Properties of the secret loader\<close>

lemma comment_or_blank_iff:
  "comment_or_blank item \<longleftrightarrow> startswith (strip item) ''#'' \<or> strip item = ''''"
  by (cases "strip item") (simp_all add: comment_or_blank_def startswith_def)

lemma read_items_skip:
  "comment_or_blank item \<Longrightarrow> read_items (item # items) secrets = read_items items secrets"
  by (simp add: comment_or_blank_iff)

lemma read_items_keep:
  "\<not> comment_or_blank item \<Longrightarrow> read_items (item # items) secrets =
     (if CHR ''='' \<in> set item
      then read_items items (dict_set secrets (takeWhile (\<lambda>x. x \<noteq> CHR ''='') item)
                               (strip (tl (dropWhile (\<lambda>x. x \<noteq> CHR ''='') item))))
      else Inl ValueError)"
  by (simp add: comment_or_blank_iff split_once_def)

lemma read_items_filter:
  "read_items items secrets = read_items (filter (\<lambda>item. \<not> comment_or_blank item) items) secrets"
proof (induction items arbitrary: secrets)
  case Nil
  show ?case by simp
next
  case (Cons item items)
  show ?case
  proof (cases "comment_or_blank item")
    case True
    then show ?thesis using Cons.IH by (simp add: read_items_skip del: read_items.simps)
  next
    case False
    then show ?thesis using Cons.IH by (simp add: read_items_keep del: read_items.simps)
  qed
qed

lemma read_items_reject:
  "item \<in> set items \<Longrightarrow> \<not> comment_or_blank item \<Longrightarrow> CHR ''='' \<notin> set item \<Longrightarrow>
   read_items items secrets = Inl ValueError"
proof (induction items arbitrary: secrets)
  case Nil
  then show ?case by simp
next
  case (Cons a items)
  show ?case
  proof (cases "comment_or_blank a")
    case True
    then have "item \<in> set items" using Cons.prems by auto
    then show ?thesis using True Cons by (simp add: read_items_skip del: read_items.simps)
  next
    case False
    then show ?thesis using Cons by (auto simp add: read_items_keep simp del: read_items.simps)
  qed
qed

lemma read_items_accept:
  "\<forall>item \<in> set items. comment_or_blank item \<or> CHR ''='' \<in> set item \<Longrightarrow>
   \<exists>result. read_items items secrets = Inr result"
proof (induction items arbitrary: secrets)
  case Nil
  show ?case by simp
next
  case (Cons a items)
  show ?case
  proof (cases "comment_or_blank a")
    case True
    then show ?thesis using Cons by (simp add: read_items_skip del: read_items.simps)
  next
    case False
    then show ?thesis using Cons by (simp add: read_items_keep del: read_items.simps)
  qed
qed

lemma set_dict_set: "x \<in> set (dict_set d k v) \<Longrightarrow> x = (k, v) \<or> x \<in> set d"
  by (induction d) (auto split: if_splits)

lemma read_items_origin:
  "read_items items secrets = Inr result \<Longrightarrow> (k, v) \<in> set result \<Longrightarrow>
   (k, v) \<in> set secrets \<or>
   (\<exists>item \<in> set items. \<not> comment_or_blank item \<and> CHR ''='' \<in> set item \<and>
      k = takeWhile (\<lambda>x. x \<noteq> CHR ''='') item \<and>
      v = strip (tl (dropWhile (\<lambda>x. x \<noteq> CHR ''='') item)))"
proof (induction items arbitrary: secrets)
  case Nil
  then show ?case by simp
next
  case (Cons a items)
  show ?case
  proof (cases "comment_or_blank a")
    case True
    then have "read_items items secrets = Inr result"
      using Cons.prems(1) by (simp add: read_items_skip del: read_items.simps)
    from Cons.IH [OF this Cons.prems(2)] show ?thesis by auto
  next
    case False
    let ?k = "takeWhile (\<lambda>x. x \<noteq> CHR ''='') a"
    let ?v = "strip (tl (dropWhile (\<lambda>x. x \<noteq> CHR ''='') a))"
    from False Cons.prems(1) have eq: "CHR ''='' \<in> set a"
      and run: "read_items items (dict_set secrets ?k ?v) = Inr result"
      by (auto simp add: read_items_keep simp del: read_items.simps split: if_splits)
    from Cons.IH [OF run Cons.prems(2)] show ?thesis
    proof
      assume "(k, v) \<in> set (dict_set secrets ?k ?v)"
      then have "(k, v) = (?k, ?v) \<or> (k, v) \<in> set secrets"
        using set_dict_set [of "(k, v)" secrets ?k ?v] by auto
      then show ?thesis using False eq by auto
    next
      assume "\<exists>item\<in>set items. \<not> comment_or_blank item \<and> CHR ''='' \<in> set item \<and>
        k = takeWhile (\<lambda>x. x \<noteq> CHR ''='') item \<and>
        v = strip (tl (dropWhile (\<lambda>x. x \<noteq> CHR ''='') item))"
      then show ?thesis by auto
    qed
  qed
qed

lemma rstrip_idem: "rstrip (rstrip s) = rstrip s"
  by (simp add: rstrip_def)

lemma lstrip_rstrip_lstrip: "lstrip (rstrip (lstrip s)) = rstrip (lstrip s)"
proof (cases "lstrip s")
  case Nil
  then have "rstrip (lstrip s) = []" by (simp add: rstrip_def)
  then show ?thesis by (simp add: lstrip_def)
next
  case (Cons c cs)
  then have c: "\<not> isspace c"
    unfolding lstrip_def by (metis hd_dropWhile list.sel(1) list.distinct(1))
  have "rstrip (c # cs) \<noteq> []"
    using c unfolding rstrip_def by (simp add: dropWhile_append3)
  moreover have "prefix (rstrip (c # cs)) (c # cs)"
    unfolding rstrip_def
    by (metis append_take_drop_id dropWhile_eq_drop prefix_def rev_append rev_rev_ident)
  ultimately obtain r where "rstrip (c # cs) = c # r"
    by (cases "rstrip (c # cs)") auto
  then show ?thesis using Cons c by (simp add: lstrip_def)
qed

lemma strip_idem: "strip (strip s) = strip s"
  by (simp add: strip_def lstrip_rstrip_lstrip rstrip_idem)

text \<open>
  Claim C6. Given the path of a readable file, \<^verbatim>\<open>read_secrets\<close> gives the result of reading
  only the lines that are neither comments nor blank: every line whose stripped form starts
  with \<open>#\<close> or is empty is ignored. It returns a dictionary when each remaining line
  contains \<open>=\<close>, and raises \<^verbatim>\<open>ValueError\<close> (the two-name unpacking fails) when one
  remaining line has no \<open>=\<close>.
\<close>

theorem read_secrets_ignores_comments_rejects_unseparated:
  assumes "disk path_obj = Some text"
  shows "read_secrets disk path_obj =
           read_items (filter (\<lambda>item. \<not> comment_or_blank item) (readlines text)) []
       \<and> ((\<forall>item \<in> set (readlines text). comment_or_blank item \<or> CHR ''='' \<in> set item) \<longrightarrow>
            (\<exists>secrets. read_secrets disk path_obj = Inr secrets))
       \<and> ((\<exists>item \<in> set (readlines text). \<not> comment_or_blank item \<and> CHR ''='' \<notin> set item) \<longrightarrow>
            read_secrets disk path_obj = Inl ValueError)"
proof -
  have run: "read_secrets disk path_obj = read_items (readlines text) []"
    using assms by (simp add: read_secrets_def)
  have "read_secrets disk path_obj =
          read_items (filter (\<lambda>item. \<not> comment_or_blank item) (readlines text)) []"
    unfolding run by (rule read_items_filter)
  moreover have "(\<forall>item \<in> set (readlines text). comment_or_blank item \<or> CHR ''='' \<in> set item) \<longrightarrow>
      (\<exists>secrets. read_secrets disk path_obj = Inr secrets)"
    unfolding run using read_items_accept by blast
  moreover have "(\<exists>item \<in> set (readlines text). \<not> comment_or_blank item \<and> CHR ''='' \<notin> set item) \<longrightarrow>
      read_secrets disk path_obj = Inl ValueError"
    unfolding run using read_items_reject by blast
  ultimately show ?thesis by blast
qed

lemma secrets_example_lines:
  "readlines (''# tokens'' @ [CHR 0x0D, CHR 0x0A, CHR 0x0A] @ ''bot-token = xoxb '' @ [CHR 0x0A] @ ''a=b=c'')
     = [''# tokens'' @ [CHR 0x0A], [CHR 0x0A], ''bot-token = xoxb '' @ [CHR 0x0A], ''a=b=c'']"
  by (simp add: readlines_def)

lemma secrets_example_bad_lines:
  "readlines (''  # tokens'' @ [CHR 0x0A] @ ''bot-token'' @ [CHR 0x0A] @ ''a=b'')
     = [''  # tokens'' @ [CHR 0x0A], ''bot-token'' @ [CHR 0x0A], ''a=b'']"
  by (simp add: readlines_def)

theorem read_secrets_ignores_comments_rejects_unseparated_witness:
  "read_secrets [''secretprops.properties'' \<mapsto>
       ''# tokens'' @ [CHR 0x0D, CHR 0x0A, CHR 0x0A] @ ''bot-token = xoxb '' @ [CHR 0x0A] @ ''a=b=c'']
     ''secretprops.properties'' = Inr [(''bot-token '', ''xoxb''), (''a'', ''b=c'')]
   \<and> read_secrets [''secretprops.properties'' \<mapsto>
       ''  # tokens'' @ [CHR 0x0A] @ ''bot-token'' @ [CHR 0x0A] @ ''a=b'']
     ''secretprops.properties'' = Inl ValueError"
proof -
  let ?good = "''# tokens'' @ [CHR 0x0D, CHR 0x0A, CHR 0x0A] @ ''bot-token = xoxb '' @ [CHR 0x0A] @ ''a=b=c''"
  let ?bad = "''  # tokens'' @ [CHR 0x0A] @ ''bot-token'' @ [CHR 0x0A] @ ''a=b''"
  let ?p = "''secretprops.properties''"
  have good: "[''secretprops.properties'' \<mapsto> ?good] ''secretprops.properties'' = Some ?good"
    by simp
  have bad: "[''secretprops.properties'' \<mapsto> ?bad] ''secretprops.properties'' = Some ?bad"
    by simp
  have "read_secrets [''secretprops.properties'' \<mapsto> ?good] ''secretprops.properties''
      = read_items (filter (\<lambda>item. \<not> comment_or_blank item) (readlines ?good)) []"
    using read_secrets_ignores_comments_rejects_unseparated [of "[?p \<mapsto> ?good]" ?p ?good, OF good]
    by blast
  also have "\<dots> = Inr [(''bot-token '', ''xoxb''), (''a'', ''b=c'')]"
    unfolding secrets_example_lines
    by (simp add: comment_or_blank_def split_once_def strip_def lstrip_def rstrip_def
        isspace_def startswith_def)
  finally have first: "read_secrets [''secretprops.properties'' \<mapsto> ?good] ''secretprops.properties''
      = Inr [(''bot-token '', ''xoxb''), (''a'', ''b=c'')]" .
  have "\<exists>item \<in> set (readlines ?bad). \<not> comment_or_blank item \<and> CHR ''='' \<notin> set item"
    unfolding secrets_example_bad_lines
    by (simp add: comment_or_blank_def strip_def lstrip_def rstrip_def isspace_def)
  then have second: "read_secrets [''secretprops.properties'' \<mapsto> ?bad] ''secretprops.properties''
      = Inl ValueError"
    using read_secrets_ignores_comments_rejects_unseparated [of "[?p \<mapsto> ?bad]" ?p ?bad, OF bad]
    by blast
  from first second show ?thesis by blast
qed

text \<open>
  Claim C10. Every value that a lookup in the dictionary returned by \<^verbatim>\<open>read_secrets\<close>
  yields is stripped of surrounding whitespace, while its key is the text of a line up to
  the first \<open>=\<close>, verbatim: whitespace around the key stays in the key, so a lookup
  succeeds only for a key written exactly as in the file.
\<close>

theorem read_secrets_values_stripped_keys_verbatim:
  assumes "disk path_obj = Some text"
    and "read_secrets disk path_obj = Inr props"
    and "dict_item props key = Inr val"
  shows "strip val = val
       \<and> (\<exists>item \<in> set (readlines text). \<not> comment_or_blank item \<and> CHR ''='' \<in> set item
            \<and> key = takeWhile (\<lambda>x. x \<noteq> CHR ''='') item
            \<and> val = strip (tl (dropWhile (\<lambda>x. x \<noteq> CHR ''='') item)))"
proof -
  have run: "read_items (readlines text) [] = Inr props"
    using assms(1,2) by (simp add: read_secrets_def)
  have "(key, val) \<in> set props"
    using assms(3) by (auto simp add: dict_item_def split: option.splits dest: map_of_SomeD)
  from read_items_origin [OF run this]
  obtain item where item: "item \<in> set (readlines text)" "\<not> comment_or_blank item"
      "CHR ''='' \<in> set item" "key = takeWhile (\<lambda>x. x \<noteq> CHR ''='') item"
      "val = strip (tl (dropWhile (\<lambda>x. x \<noteq> CHR ''='') item))"
    by auto
  have "strip val = val" unfolding item(5) by (rule strip_idem)
  then show ?thesis using item by blast
qed

theorem read_secrets_values_stripped_keys_verbatim_witness:
  "read_secrets [''secretprops.properties'' \<mapsto> '' bot-token = x ''] ''secretprops.properties''
     = Inr [('' bot-token '', ''x'')]
   \<and> dict_item [('' bot-token '', ''x'')] '' bot-token '' = Inr ''x''
   \<and> dict_item [('' bot-token '', ''x'')] ''bot-token'' = Inl (KeyError ''bot-token'')
   \<and> strip ''x'' = ''x''
   \<and> (\<exists>item \<in> set (readlines '' bot-token = x '').
         '' bot-token '' = takeWhile (\<lambda>x. x \<noteq> CHR ''='') item)"
proof -
  let ?disk = "[''secretprops.properties'' \<mapsto> '' bot-token = x '']"
  have a: "?disk ''secretprops.properties'' = Some '' bot-token = x ''"
    by simp
  have b: "read_secrets ?disk ''secretprops.properties'' = Inr [('' bot-token '', ''x'')]"
    by (simp add: read_secrets_def readlines_def split_once_def strip_def lstrip_def rstrip_def
        isspace_def startswith_def)
  have c: "dict_item [('' bot-token '', ''x'')] '' bot-token '' = Inr ''x''"
    by (simp add: dict_item_def)
  have d: "dict_item [('' bot-token '', ''x'')] ''bot-token'' = Inl (KeyError ''bot-token'')"
    by (simp add: dict_item_def)
  from read_secrets_values_stripped_keys_verbatim
    [of ?disk "''secretprops.properties''" "'' bot-token = x ''", OF a b c] b c d show ?thesis
    by blast
qed

section \<open>Properties of the calendar\<close>

lemma mod_zero_iff_top:
  fixes x N :: int
  assumes "0 < x" "x \<le> N"
  shows "x mod N = 0 \<longleftrightarrow> x = N"
proof (cases "x = N")
  case True
  then show ?thesis by simp
next
  case False
  then have "x mod N = x" using assms by simp
  then show ?thesis using assms False by simp
qed

lemma year_days:
  fixes a b c e :: int
  assumes "0 \<le> a" "0 \<le> b" "b \<le> 3" "0 \<le> c" "c \<le> 24" "0 \<le> e" "e \<le> 3"
  shows "days_before_year (a * 400 + 1 + b * 100 + c * 4 + e)
           = a * 146097 + b * 36524 + c * 1461 + e * 365"
proof -
  let ?y = "a * 400 + b * 100 + c * 4 + e"
  have "?y = (a * 100 + b * 25 + c) * 4 + e" by simp
  then have "?y div 4 = (a * 100 + b * 25 + c) + e div 4"
    by (simp only: div_mult_self3)
  then have d4: "?y div 4 = a * 100 + b * 25 + c" using assms by simp
  have "?y = (a * 4 + b) * 100 + (c * 4 + e)" by simp
  then have "?y div 100 = (a * 4 + b) + (c * 4 + e) div 100"
    by (simp only: div_mult_self3)
  then have d100: "?y div 100 = a * 4 + b" using assms by simp
  have "?y = a * 400 + (b * 100 + c * 4 + e)" by simp
  then have "?y div 400 = a + (b * 100 + c * 4 + e) div 400"
    by (simp only: div_mult_self3)
  then have d400: "?y div 400 = a" using assms by simp
  have "days_before_year (?y + 1) = ?y * 365 + ?y div 4 - ?y div 100 + ?y div 400"
    unfolding days_before_year_def Let_def by (simp only: add_diff_cancel_right')
  also have "\<dots> = a * 146097 + b * 36524 + c * 1461 + e * 365"
    unfolding d4 d100 d400 by simp
  finally have "days_before_year (?y + 1) = a * 146097 + b * 36524 + c * 1461 + e * 365" .
  moreover have "a * 400 + 1 + b * 100 + c * 4 + e = ?y + 1" by simp
  ultimately show ?thesis by (simp only:)
qed

lemma year_leap:
  fixes a b c e :: int
  assumes "0 \<le> a" "0 \<le> b" "b \<le> 3" "0 \<le> c" "c \<le> 24" "0 \<le> e" "e \<le> 3"
  shows "is_leap (a * 400 + 1 + b * 100 + c * 4 + e) \<longleftrightarrow> e = 3 \<and> (c \<noteq> 24 \<or> b = 3)"
proof -
  let ?year = "a * 400 + 1 + b * 100 + c * 4 + e"
  have "?year = (a * 100 + b * 25 + c) * 4 + (e + 1)" by simp
  then have "?year mod 4 = (e + 1) mod 4"
    by (simp only: mod_mult_self3)
  moreover have "(e + 1) mod 4 = 0 \<longleftrightarrow> e + 1 = 4"
    by (rule mod_zero_iff_top) (use assms in simp_all)
  ultimately have m4: "?year mod 4 = 0 \<longleftrightarrow> e = 3" by (simp only:) arith
  have "?year = (a * 4 + b) * 100 + (c * 4 + e + 1)" by simp
  then have "?year mod 100 = (c * 4 + e + 1) mod 100"
    by (simp only: mod_mult_self3)
  moreover have "(c * 4 + e + 1) mod 100 = 0 \<longleftrightarrow> c * 4 + e + 1 = 100"
    by (rule mod_zero_iff_top) (use assms in simp_all)
  moreover have "c * 4 + e + 1 = 100 \<longleftrightarrow> c = 24 \<and> e = 3" using assms by arith
  ultimately have m100: "?year mod 100 = 0 \<longleftrightarrow> c = 24 \<and> e = 3" by (simp only:)
  have "?year = a * 400 + (b * 100 + c * 4 + e + 1)" by simp
  then have "?year mod 400 = (b * 100 + c * 4 + e + 1) mod 400"
    by (simp only: mod_mult_self3)
  moreover have "(b * 100 + c * 4 + e + 1) mod 400 = 0 \<longleftrightarrow> b * 100 + c * 4 + e + 1 = 400"
    by (rule mod_zero_iff_top) (use assms in simp_all)
  moreover have "b * 100 + c * 4 + e + 1 = 400 \<longleftrightarrow> b = 3 \<and> c = 24 \<and> e = 3" using assms by arith
  ultimately have m400: "?year mod 400 = 0 \<longleftrightarrow> b = 3 \<and> c = 24 \<and> e = 3" by (simp only:)
  show ?thesis unfolding is_leap_def m4 m100 m400 by auto
qed


lemma month_and_day_correct:
  assumes "0 \<le> r" "r \<le> 364" "month_and_day leap r = (m, d)"
  shows "1 \<le> m \<and> m \<le> 12 \<and> 1 \<le> d \<and> d \<le> 31
       \<and> DAYS_BEFORE_MONTH ! nat m + (if m > 2 \<and> leap then 1 else 0) + d = r + 1"
proof -
  define k where "k = (r + 50) div 32"
  have lo: "32 * k - 50 \<le> r" and hi: "r \<le> 32 * k - 19"
    unfolding k_def by arith+
  have "1 \<le> k" "k \<le> 12" using assms(1,2) unfolding k_def by arith+
  then consider "k = 1" | "k = 2" | "k = 3" | "k = 4" | "k = 5" | "k = 6"
    | "k = 7" | "k = 8" | "k = 9" | "k = 10" | "k = 11" | "k = 12"
    by atomize_elim presburger
  then show ?thesis
  proof cases
    case 1
    then show ?thesis using assms(3) lo hi assms(1)
      by (auto simp add: month_and_day_def k_def [symmetric] DAYS_BEFORE_MONTH_def DAYS_IN_MONTH_def Let_def split: if_splits)
  next
    case 2
    then show ?thesis using assms(3) lo hi
      by (auto simp add: month_and_day_def k_def [symmetric] DAYS_BEFORE_MONTH_def DAYS_IN_MONTH_def Let_def split: if_splits)
  next
    case 3
    then show ?thesis using assms(3) lo hi
      by (auto simp add: month_and_day_def k_def [symmetric] DAYS_BEFORE_MONTH_def DAYS_IN_MONTH_def Let_def split: if_splits)
  next
    case 4
    then show ?thesis using assms(3) lo hi
      by (auto simp add: month_and_day_def k_def [symmetric] DAYS_BEFORE_MONTH_def DAYS_IN_MONTH_def Let_def split: if_splits)
  next
    case 5
    then show ?thesis using assms(3) lo hi
      by (auto simp add: month_and_day_def k_def [symmetric] DAYS_BEFORE_MONTH_def DAYS_IN_MONTH_def Let_def split: if_splits)
  next
    case 6
    then show ?thesis using assms(3) lo hi
      by (auto simp add: month_and_day_def k_def [symmetric] DAYS_BEFORE_MONTH_def DAYS_IN_MONTH_def Let_def split: if_splits)
  next
    case 7
    then show ?thesis using assms(3) lo hi
      by (auto simp add: month_and_day_def k_def [symmetric] DAYS_BEFORE_MONTH_def DAYS_IN_MONTH_def Let_def split: if_splits)
  next
    case 8
    then show ?thesis using assms(3) lo hi
      by (auto simp add: month_and_day_def k_def [symmetric] DAYS_BEFORE_MONTH_def DAYS_IN_MONTH_def Let_def split: if_splits)
  next
    case 9
    then show ?thesis using assms(3) lo hi
      by (auto simp add: month_and_day_def k_def [symmetric] DAYS_BEFORE_MONTH_def DAYS_IN_MONTH_def Let_def split: if_splits)
  next
    case 10
    then show ?thesis using assms(3) lo hi
      by (auto simp add: month_and_day_def k_def [symmetric] DAYS_BEFORE_MONTH_def DAYS_IN_MONTH_def Let_def split: if_splits)
  next
    case 11
    then show ?thesis using assms(3) lo hi
      by (auto simp add: month_and_day_def k_def [symmetric] DAYS_BEFORE_MONTH_def DAYS_IN_MONTH_def Let_def split: if_splits)
  next
    case 12
    then show ?thesis using assms(3) lo hi assms(2)
      by (auto simp add: month_and_day_def k_def [symmetric] DAYS_BEFORE_MONTH_def DAYS_IN_MONTH_def Let_def split: if_splits)
  qed
qed



lemma ord2ymd_correct:
  assumes "1 \<le> n" "ord2ymd n = (y, m, d)"
  shows "ymd2ord y m d = n \<and> 1 \<le> y \<and> 1 \<le> m \<and> m \<le> 12 \<and> 1 \<le> d \<and> d \<le> 31
       \<and> (n \<le> MAXORDINAL \<longrightarrow> y \<le> 9999)"
proof -
  define n0 where "n0 = n - 1"
  define a where "a = n0 div 146097"
  define r1 where "r1 = n0 mod 146097"
  define b where "b = r1 div 36524"
  define r2 where "r2 = r1 mod 36524"
  define c where "c = r2 div 1461"
  define r3 where "r3 = r2 mod 1461"
  define e where "e = r3 div 365"
  define r where "r = r3 mod 365"
  have n0: "0 \<le> n0" using assms(1) by (simp add: n0_def)
  have eq1: "n0 = a * 146097 + r1" "0 \<le> r1" "r1 < 146097"
    by (simp_all add: a_def r1_def)
  have eq2: "r1 = b * 36524 + r2" "0 \<le> r2" "r2 < 36524"
    by (simp_all add: b_def r2_def)
  have eq3: "r2 = c * 1461 + r3" "0 \<le> r3" "r3 < 1461"
    by (simp_all add: c_def r3_def)
  have eq4: "r3 = e * 365 + r" "0 \<le> r" "r < 365"
    by (simp_all add: e_def r_def)
  have a: "0 \<le> a" using n0 by (simp add: a_def pos_imp_zdiv_nonneg_iff)
  have b: "0 \<le> b" "b \<le> 4" using eq1(2,3) eq2 by arith+
  have c: "0 \<le> c" "c \<le> 24" using eq2(2,3) eq3 by arith+
  have e: "0 \<le> e" "e \<le> 4" using eq3(2,3) eq4 by arith+
  let ?year = "a * 400 + 1 + b * 100 + c * 4 + e"
  let ?leap = "e = 3 \<and> (c \<noteq> 24 \<or> b = 3)"
  have unfold: "ord2ymd n =
      (if e = 4 \<or> b = 4 then (?year - 1, 12, 31)
       else case month_and_day ?leap r of (month, day) \<Rightarrow> (?year, month, day))"
    unfolding ord2ymd_def Let_def a_def b_def c_def e_def r_def r3_def r2_def r1_def n0_def ..
  have top: "n \<le> MAXORDINAL \<Longrightarrow> a * 400 + b * 100 + c * 4 + e \<le> 9998 + (if e = 4 \<or> b = 4 then 1 else 0)"
  proof -
    assume "n \<le> MAXORDINAL"
    then have "n0 \<le> 3652058" by (simp add: n0_def MAXORDINAL_def)
    then show ?thesis using eq1 eq2 eq3 eq4 a b c e by (simp split: if_splits)
  qed
  show ?thesis
  proof (cases "b = 4")
    case True
    then have "r2 = 0" using eq1(3) eq2 by arith
    then have z: "c = 0" "e = 0" "r = 0" by (simp_all add: c_def e_def r_def r3_def)
    have res: "y = a * 400 + 1 + 3 * 100 + 24 * 4 + 3" "m = 12" "d = 31"
      using assms(2) True z unfolding unfold by simp_all
    have "days_before_year y = a * 146097 + 3 * 36524 + 24 * 1461 + 3 * 365"
      unfolding res(1) by (rule year_days) (use a in simp_all)
    moreover have "is_leap y"
      unfolding res(1) using year_leap [of a 3 24 3] a by simp
    moreover have "n = a * 146097 + 146097"
      using True z eq1 eq2 eq3 eq4 \<open>r2 = 0\<close> by (simp add: n0_def)
    ultimately have "ymd2ord y m d = n"
      by (simp add: ymd2ord_def days_before_month_def res(2,3) DAYS_BEFORE_MONTH_def)
    moreover have "1 \<le> y" using a res(1) by simp
    moreover have "n \<le> MAXORDINAL \<longrightarrow> y \<le> 9999" using top True z res(1) by auto
    ultimately show ?thesis using res by simp
  next
    case b3: False
    then have b': "b \<le> 3" using b by simp
    show ?thesis
    proof (cases "e = 4")
      case True
      then have "r = 0" using eq3(3) eq4 by arith
      have c': "c \<le> 23" using True eq4 eq3 eq2(3) \<open>r = 0\<close> by arith
      have res: "y = a * 400 + 1 + b * 100 + c * 4 + 3" "m = 12" "d = 31"
        using assms(2) True unfolding unfold by simp_all
      have "days_before_year y = a * 146097 + b * 36524 + c * 1461 + 3 * 365"
        unfolding res(1) by (rule year_days) (use a b b' c in simp_all)
      moreover have "is_leap y"
        unfolding res(1) using year_leap [of a b c 3] a b b' c c' by simp
      moreover have "n = a * 146097 + b * 36524 + c * 1461 + 1461"
        using True eq1 eq2 eq3 eq4 \<open>r = 0\<close> by (simp add: n0_def)
      ultimately have "ymd2ord y m d = n"
        by (simp add: ymd2ord_def days_before_month_def res(2,3) DAYS_BEFORE_MONTH_def)
      moreover have "1 \<le> y" using a b c res(1) by simp
      moreover have "n \<le> MAXORDINAL \<longrightarrow> y \<le> 9999" using top True res(1) by auto
      ultimately show ?thesis using res by simp
    next
      case False
      then have e': "e \<le> 3" using e by simp
      obtain month day where md: "month_and_day ?leap r = (month, day)"
        by (cases "month_and_day ?leap r") blast
      have res: "y = ?year" "m = month" "d = day"
        using assms(2) False b3 md unfolding unfold by simp_all
      have r364: "r \<le> 364" using eq4(3) by simp
      from month_and_day_correct [OF eq4(2) r364 md]
      have mdc: "1 \<le> month" "month \<le> 12" "1 \<le> day" "day \<le> 31"
        "DAYS_BEFORE_MONTH ! nat month + (if month > 2 \<and> ?leap then 1 else 0) + day = r + 1"
        by simp_all
      have dby: "days_before_year y = a * 146097 + b * 36524 + c * 1461 + e * 365"
        unfolding res(1) by (rule year_days) (use a b b' c e e' in simp_all)
      have leap: "is_leap y \<longleftrightarrow> ?leap"
        unfolding res(1) by (rule year_leap) (use a b b' c e e' in simp_all)
      have "n = a * 146097 + b * 36524 + c * 1461 + e * 365 + r + 1"
        using eq1 eq2 eq3 eq4 by (simp add: n0_def)
      then have "ymd2ord y m d = n"
        using mdc(5) dby by (simp add: ymd2ord_def days_before_month_def res(2,3) leap)
      moreover have "1 \<le> y" using a b c e res(1) by simp
      moreover have "n \<le> MAXORDINAL \<longrightarrow> y \<le> 9999" using top False b3 res(1) by auto
      ultimately show ?thesis using res mdc by simp
    qed
  qed
qed


section \<open>Properties of the date strings\<close>

lemma digit_code: "k < 10 \<Longrightarrow> (of_char (char_of (48 + k) :: char) :: nat) = 48 + k"
  by simp

lemma str_nat_digits: "c \<in> set (str_nat n) \<Longrightarrow> 48 \<le> (of_char c :: nat) \<and> (of_char c :: nat) < 58"
proof (induction n rule: str_nat.induct)
  case (1 n)
  show ?case
  proof (cases "n < 10")
    case True
    then have "c = char_of (48 + n)" using "1.prems" by (subst (asm) str_nat.simps) simp
    then show ?thesis using True digit_code [of n] by simp
  next
    case False
    then have "c \<in> set (str_nat (n div 10)) \<or> c = char_of (48 + n mod 10)"
      using "1.prems" by (subst (asm) str_nat.simps) auto
    then show ?thesis
    proof
      assume "c \<in> set (str_nat (n div 10))"
      then show ?thesis using "1.IH" False by simp
    next
      assume "c = char_of (48 + n mod 10)"
      then show ?thesis using digit_code [of "n mod 10"] by simp
    qed
  qed
qed

lemma str_nat_length: "n < 10 ^ k \<Longrightarrow> 0 < k \<Longrightarrow> length (str_nat n) \<le> k"
proof (induction n arbitrary: k rule: str_nat.induct)
  case (1 n)
  show ?case
  proof (cases "n < 10")
    case True
    then have "str_nat n = [char_of (48 + n)]" by (subst str_nat.simps) simp
    then show ?thesis using "1.prems" by simp
  next
    case False
    then have unfold: "str_nat n = str_nat (n div 10) @ [char_of (48 + n mod 10)]"
      by (subst str_nat.simps) simp
    obtain j where k: "k = Suc j" using "1.prems"(2) by (cases k) auto
    have "j \<noteq> 0" using False "1.prems"(1) k by (cases j) auto
    moreover have "n div 10 < 10 ^ j" using "1.prems"(1) k by (simp add: less_mult_imp_div_less)
    ultimately have "length (str_nat (n div 10)) \<le> j" using "1.IH" [OF False] by simp
    then show ?thesis using unfold k by simp
  qed
qed

lemma decode_str_nat:
  "foldl (\<lambda>a c. 10 * a + (of_char c - 48)) (0::nat) (str_nat n) = n"
proof (induction n rule: str_nat.induct)
  case (1 n)
  show ?case
  proof (cases "n < 10")
    case True
    then have "str_nat n = [char_of (48 + n)]" by (subst str_nat.simps) simp
    then show ?thesis using digit_code [OF True] by simp
  next
    case False
    then have unfold: "str_nat n = str_nat (n div 10) @ [char_of (48 + n mod 10)]"
      by (subst str_nat.simps) simp
    show ?thesis unfolding unfold using "1.IH" [OF False] digit_code [of "n mod 10"] by simp
  qed
qed

lemma decode_zeros:
  "foldl (\<lambda>a c. 10 * a + (of_char c - 48)) (0::nat) (replicate k CHR ''0'' @ s)
     = foldl (\<lambda>a c. 10 * a + (of_char c - 48)) (0::nat) s"
  by (induction k) simp_all

lemma zfill_str_nat_inject: "zfill w (str_nat a) = zfill w (str_nat b) \<Longrightarrow> a = b"
proof -
  assume "zfill w (str_nat a) = zfill w (str_nat b)"
  then have "foldl (\<lambda>a c. 10 * a + (of_char c - 48)) (0::nat) (zfill w (str_nat a))
      = foldl (\<lambda>a c. 10 * a + (of_char c - 48)) (0::nat) (zfill w (str_nat b))"
    by simp
  then show ?thesis unfolding zfill_def decode_zeros decode_str_nat .
qed

lemma zfill_length: "length s \<le> w \<Longrightarrow> length (zfill w s) = w"
  by (simp add: zfill_def)

lemma zfill_digits:
  "c \<in> set (zfill w (str_nat n)) \<Longrightarrow> 48 \<le> (of_char c :: nat) \<and> (of_char c :: nat) < 58"
  using str_nat_digits [of c n] by (auto simp add: zfill_def)


lemma strftime_Ymd_digits:
  "c \<in> set (strftime_Ymd n) \<Longrightarrow> 48 \<le> (of_char c :: nat) \<and> (of_char c :: nat) < 58"
  by (cases "ord2ymd n") (auto simp add: strftime_Ymd_def dest: zfill_digits)

lemma strftime_Ymd_no_underscore: "CHR ''_'' \<notin> set (strftime_Ymd n)"
  using strftime_Ymd_digits [of "CHR ''_''" n] by auto

lemma strftime_Ymd_fields:
  assumes "1 \<le> n" "n \<le> MAXORDINAL" "ord2ymd n = (y, m, d)"
  shows "length (zfill 4 (str_nat (nat y))) = 4"
    and "length (zfill 2 (str_nat (nat m))) = 2"
    and "length (zfill 2 (str_nat (nat d))) = 2"
proof -
  from ord2ymd_correct [OF assms(1,3)] assms(2)
  have b: "1 \<le> y" "y \<le> 9999" "1 \<le> m" "m \<le> 12" "1 \<le> d" "d \<le> 31" by simp_all
  have "nat y < 10 ^ 4" "nat m < 10 ^ 2" "nat d < 10 ^ 2" using b by simp_all
  then have "length (str_nat (nat y)) \<le> 4" "length (str_nat (nat m)) \<le> 2"
      "length (str_nat (nat d)) \<le> 2"
    by (simp_all add: str_nat_length)
  then show "length (zfill 4 (str_nat (nat y))) = 4"
    and "length (zfill 2 (str_nat (nat m))) = 2"
    and "length (zfill 2 (str_nat (nat d))) = 2"
    by (simp_all add: zfill_length)
qed

lemma strftime_Ymd_length:
  assumes "1 \<le> n" "n \<le> MAXORDINAL"
  shows "length (strftime_Ymd n) = 8"
proof -
  obtain y m d where o: "ord2ymd n = (y, m, d)" by (cases "ord2ymd n") blast
  from strftime_Ymd_fields [OF assms o] show ?thesis
    by (simp add: strftime_Ymd_def o)
qed

lemma strftime_Ymd_inject:
  assumes "1 \<le> n" "n \<le> MAXORDINAL" "1 \<le> n'" "n' \<le> MAXORDINAL"
    and "strftime_Ymd n = strftime_Ymd n'"
  shows "n = n'"
proof -
  obtain y m d where o: "ord2ymd n = (y, m, d)" by (cases "ord2ymd n") blast
  obtain y' m' d' where o': "ord2ymd n' = (y', m', d')" by (cases "ord2ymd n'") blast
  note f = strftime_Ymd_fields [OF assms(1,2) o]
  note f' = strftime_Ymd_fields [OF assms(3,4) o']
  from assms(5) have eq: "zfill 4 (str_nat (nat y)) @ zfill 2 (str_nat (nat m)) @ zfill 2 (str_nat (nat d))
      = zfill 4 (str_nat (nat y')) @ zfill 2 (str_nat (nat m')) @ zfill 2 (str_nat (nat d'))"
    by (simp add: strftime_Ymd_def o o')
  then have y: "zfill 4 (str_nat (nat y)) = zfill 4 (str_nat (nat y'))"
    and rest: "zfill 2 (str_nat (nat m)) @ zfill 2 (str_nat (nat d))
      = zfill 2 (str_nat (nat m')) @ zfill 2 (str_nat (nat d'))"
    using f(1) f'(1) by simp_all
  from rest have m: "zfill 2 (str_nat (nat m)) = zfill 2 (str_nat (nat m'))"
    and d: "zfill 2 (str_nat (nat d)) = zfill 2 (str_nat (nat d'))"
    using f(2) f'(2) by simp_all
  from ord2ymd_correct [OF assms(1) o] ord2ymd_correct [OF assms(3) o']
  have pos: "1 \<le> y" "1 \<le> m" "1 \<le> d" "1 \<le> y'" "1 \<le> m'" "1 \<le> d'"
    and ord: "ymd2ord y m d = n" "ymd2ord y' m' d' = n'"
    by simp_all
  have "nat y = nat y'" "nat m = nat m'" "nat d = nat d'"
    using y m d by (auto dest: zfill_str_nat_inject)
  then have "y = y'" "m = m'" "d = d'" using pos by simp_all
  then show ?thesis using ord by simp
qed

lemma date_loop_map:
  "date_loop today xs = Inr ds \<Longrightarrow>
   ds = map (\<lambda>x. today - x) xs \<and> (\<forall>d \<in> set ds. 1 \<le> d \<and> d \<le> MAXORDINAL)"
proof (induction xs arbitrary: ds)
  case Nil
  then show ?case by simp
next
  case (Cons x xs)
  then show ?case
    by (auto simp add: minus_days_def split: if_splits sum.splits)
qed

lemma date_loop_total:
  "\<forall>x \<in> set xs. 0 < today - x \<and> today - x \<le> MAXORDINAL \<Longrightarrow>
   date_loop today xs = Inr (map (\<lambda>x. today - x) xs)"
  by (induction xs) (simp_all add: minus_days_def)

lemma range_down_set: "set (range_down span) = {1..span}"
  by (simp add: range_down_def)

lemma range_down_distinct: "distinct (range_down span)"
  by (simp add: range_down_def)

lemma date_window_valid:
  assumes "date_window today span = Inr ds"
  shows "ds = map (\<lambda>x. today - x) (range_down span)"
    and "\<forall>d \<in> set ds. 1 \<le> d \<and> d \<le> MAXORDINAL"
    and "distinct ds"
    and "distinct (map strftime_Ymd ds)"
proof -
  from date_loop_map [OF assms [unfolded date_window_def]]
  show m: "ds = map (\<lambda>x. today - x) (range_down span)"
    and v: "\<forall>d \<in> set ds. 1 \<le> d \<and> d \<le> MAXORDINAL" by simp_all
  show d: "distinct ds" unfolding m
    by (simp add: distinct_map range_down_distinct inj_on_def)
  have "inj_on strftime_Ymd (set ds)"
    unfolding inj_on_def using v strftime_Ymd_inject by blast
  then show "distinct (map strftime_Ymd ds)" using d by (simp add: distinct_map)
qed

lemma range_down_5: "range_down 5 = [5, 4, 3, 2, 1]"
  by (simp add: range_down_def upto.simps)

text \<open>
  Claim C2, amended. For \<open>span_days = 5\<close> and a fixed \<open>today\<close> more than five days
  into the range of \<^verbatim>\<open>datetime\<close>, the date window holds exactly the five calendar dates
  from five days before today to yesterday, oldest first; they are distinct, also as
  \<^verbatim>\<open>%Y%m%d\<close> strings, and today is not among them. The oldest date is four days before
  yesterday, not five.
\<close>

theorem date_window_five_days_end_yesterday:
  assumes "5 < today" and "today \<le> MAXORDINAL"
  shows "date_window today 5 = Inr [today - 5, today - 4, today - 3, today - 2, today - 1]
       \<and> dates_str today 5
           = Inr (map strftime_Ymd [today - 5, today - 4, today - 3, today - 2, today - 1])
       \<and> distinct [today - 5, today - 4, today - 3, today - 2, today - 1]
       \<and> distinct (map strftime_Ymd [today - 5, today - 4, today - 3, today - 2, today - 1])
       \<and> today \<notin> set [today - 5, today - 4, today - 3, today - 2, today - 1]"
proof -
  have w: "date_window today 5 = Inr [today - 5, today - 4, today - 3, today - 2, today - 1]"
    using assms by (simp add: date_window_def range_down_5 minus_days_def)
  from date_window_valid(4) [OF w] w show ?thesis
    by (simp add: dates_str_def)
qed

theorem date_window_five_days_end_yesterday_witness:
  "dates_str (ymd2ord 2024 1 3) 5
     = Inr [''20231229'', ''20231230'', ''20231231'', ''20240101'', ''20240102'']
   \<and> date_window (ymd2ord 2024 1 3) 5
     = Inr [ymd2ord 2023 12 29, ymd2ord 2023 12 30, ymd2ord 2023 12 31, ymd2ord 2024 1 1,
            ymd2ord 2024 1 2]"
proof -
  have t: "ymd2ord 2024 1 3 = 738888"
    by (simp add: ymd2ord_def days_before_year_def days_before_month_def DAYS_BEFORE_MONTH_def
        is_leap_def)
  have h: "5 < (738888::int)" "(738888::int) \<le> MAXORDINAL" by (simp_all add: MAXORDINAL_def)
  have s: "map strftime_Ymd [738888 - 5, 738888 - 4, 738888 - 3, 738888 - 2, 738888 - 1]
      = [''20231229'', ''20231230'', ''20231231'', ''20240101'', ''20240102'']"
    by code_simp
  have o: "[ymd2ord 2023 12 29, ymd2ord 2023 12 30, ymd2ord 2023 12 31, ymd2ord 2024 1 1,
            ymd2ord 2024 1 2] = [738888 - 5, 738888 - 4, 738888 - 3, 738888 - 2, 738888 - 1]"
    by (simp add: ymd2ord_def days_before_year_def days_before_month_def DAYS_BEFORE_MONTH_def
        is_leap_def)
  from date_window_five_days_end_yesterday [OF h] show ?thesis
    unfolding t o s by simp
qed

text \<open>
  With today 2024-01-03 the window starts at 2023-12-29, five days back; the date six days
  back, 2023-12-28, is not in it.
\<close>

theorem date_window_oldest_is_not_six_days_back:
  "dates_str (ymd2ord 2024 1 3) 5
     = Inr [''20231229'', ''20231230'', ''20231231'', ''20240101'', ''20240102'']
   \<and> strftime_Ymd (ymd2ord 2024 1 3 - 6) = ''20231228''
   \<and> ''20231228'' \<notin> set [''20231229'', ''20231230'', ''20231231'', ''20240101'', ''20240102'']"
  by code_simp

section \<open>Properties of the download queue\<close>

lemma map_of_dict_set: "map_of (dict_set d k v) = (map_of d)(k \<mapsto> v)"
  by (induction d) (auto simp add: fun_eq_iff)

lemma dict_set_keys:
  "map fst (dict_set d k v) = (if k \<in> fst ` set d then map fst d else map fst d @ [k])"
proof (induction d)
  case Nil
  show ?case by simp
next
  case (Cons p d)
  obtain k' v' where p: "p = (k', v')" by (cases p)
  show ?case
  proof (cases "k' = k")
    case True
    then show ?thesis by (simp add: p)
  next
    case False
    then show ?thesis using Cons.IH by (simp add: p)
  qed
qed

lemma distinct_dict_set: "distinct (map fst d) \<Longrightarrow> distinct (map fst (dict_set d k v))"
  by (simp add: dict_set_keys)

lemma takeWhile_before_underscore:
  "CHR ''_'' \<notin> set dt \<Longrightarrow> takeWhile (\<lambda>c. c \<noteq> CHR ''_'') (dt @ CHR ''_'' # rest) = dt"
  by (induction dt) auto

lemma remote_filename_date:
  "CHR ''_'' \<notin> set dt \<Longrightarrow>
   takeWhile (\<lambda>c. c \<noteq> CHR ''_'') (remote_filename dt tod model filetype) = dt"
  using takeWhile_before_underscore [of dt] by (simp add: remote_filename_def)

lemma queue_tod_distinct:
  "distinct (map fst d) \<Longrightarrow> distinct (map fst (queue_tod model filetype filenames dt tod d))"
  by (simp add: queue_tod_def Let_def distinct_dict_set)

lemma fold_queue_tod_distinct:
  "distinct (map fst d) \<Longrightarrow>
   distinct (map fst (fold (queue_tod model filetype filenames dt) tods d))"
  by (induction tods arbitrary: d) (simp_all add: queue_tod_distinct)

lemma build_url_dict_distinct:
  "distinct (map fst (build_url_dict model filetype filenames dates))"
proof -
  have "distinct (map fst d) \<Longrightarrow>
      distinct (map fst (fold (\<lambda>dt url_dict.
         fold (queue_tod model filetype filenames dt) [''00'', ''12''] url_dict) dates d))" for d
    by (induction dates arbitrary: d) (simp_all add: queue_tod_distinct)
  then show ?thesis by (simp add: build_url_dict_def)
qed

lemma fold_queue_tod_lookup:
  "map_of (fold (queue_tod model filetype filenames dt) tods d) k =
     (if k \<notin> set filenames \<and> (\<exists>tod \<in> set tods. k = remote_filename dt tod model filetype)
      then Some (remote_url dt k) else map_of d k)"
proof (induction tods arbitrary: d)
  case Nil
  show ?case by simp
next
  case (Cons tod tods)
  show ?case
    unfolding fold_simps Cons.IH
    by (auto simp add: queue_tod_def Let_def map_of_dict_set)
qed

lemma fold_dates_lookup:
  assumes "\<forall>dt \<in> set dates. CHR ''_'' \<notin> set dt"
  shows "map_of (fold (\<lambda>dt url_dict. fold (queue_tod model filetype filenames dt) tods url_dict)
            dates d) k =
     (if k \<notin> set filenames
         \<and> (\<exists>dt \<in> set dates. \<exists>tod \<in> set tods. k = remote_filename dt tod model filetype)
      then Some (remote_url (takeWhile (\<lambda>c. c \<noteq> CHR ''_'') k) k) else map_of d k)"
  using assms
proof (induction dates arbitrary: d)
  case Nil
  show ?case by simp
next
  case (Cons dt dates)
  have dt: "CHR ''_'' \<notin> set dt" and rest: "\<forall>dt \<in> set dates. CHR ''_'' \<notin> set dt"
    using Cons.prems by simp_all
  show ?case
    unfolding fold_simps Cons.IH [OF rest] fold_queue_tod_lookup
    using remote_filename_date [OF dt] by auto
qed

lemma build_url_dict_lookup:
  assumes "\<forall>dt \<in> set dates. CHR ''_'' \<notin> set dt"
  shows "map_of (build_url_dict model filetype filenames dates) k =
     (if k \<notin> set filenames
         \<and> (\<exists>dt \<in> set dates. \<exists>tod \<in> set [''00'', ''12'']. k = remote_filename dt tod model filetype)
      then Some (remote_url (takeWhile (\<lambda>c. c \<noteq> CHR ''_'') k) k) else None)"
  unfolding build_url_dict_def fold_dates_lookup [OF assms] by simp

lemma build_url_dict_entries:
  assumes "\<forall>dt \<in> set dates. CHR ''_'' \<notin> set dt"
    and "(k, v) \<in> set (build_url_dict model filetype filenames dates)"
  shows "k \<notin> set filenames \<and>
     (\<exists>dt \<in> set dates. \<exists>tod \<in> set [''00'', ''12''].
        k = remote_filename dt tod model filetype \<and> v = remote_url dt k)"
proof -
  have "map_of (build_url_dict model filetype filenames dates) k = Some v"
    using assms(2) build_url_dict_distinct by simp
  then have k: "k \<notin> set filenames"
    and ex: "\<exists>dt \<in> set dates. \<exists>tod \<in> set [''00'', ''12'']. k = remote_filename dt tod model filetype"
    and v: "v = remote_url (takeWhile (\<lambda>c. c \<noteq> CHR ''_'') k) k"
    unfolding build_url_dict_lookup [OF assms(1)] by (auto split: if_splits)
  from ex obtain dt tod where dt: "dt \<in> set dates" "tod \<in> set [''00'', ''12'']"
    "k = remote_filename dt tod model filetype" by blast
  then have "takeWhile (\<lambda>c. c \<noteq> CHR ''_'') k = dt"
    using assms(1) remote_filename_date by blast
  then show ?thesis using k v dt by blast
qed


lemma digit_codes:
  "list_all (\<lambda>n. char_of (n::nat) \<in> set ''0123456789'') [48, 49, 50, 51, 52, 53, 54, 55, 56, 57]"
  by code_simp

lemma digit_char:
  assumes "48 \<le> (of_char c :: nat)" "(of_char c :: nat) < 58"
  shows "c \<in> set ''0123456789''"
proof -
  define n where "n = (of_char c :: nat)"
  have c: "c = char_of n" by (simp add: n_def)
  have "n \<in> set [48, 49, 50, 51, 52, 53, 54, 55, 56, 57]"
    using assms unfolding n_def by (simp del: of_char_eq_iff) arith
  then have "char_of n \<in> set ''0123456789''"
    using digit_codes unfolding list_all_iff by blast
  then show ?thesis unfolding c .
qed

text \<open>
  Claim C4. For every date \<open>d\<close> of the window and every run time \<open>tod\<close> of \<open>00\<close> and
  \<open>12\<close>, the filename that \<^verbatim>\<open>retrieve_imgs\<close> constructs is the eight digits of \<open>d\<close>
  as zero-padded year, month and day, then \<open>_\<close>, \<open>tod\<close>, \<open>0000_\<close>, the model and the
  extension; unless a file of that name is already known, \<^verbatim>\<open>url_dict\<close> maps it to the base
  URL followed by \<open>/data/upper/\<close>, the eight digits, \<open>/\<close> and the filename. Every entry
  of \<^verbatim>\<open>url_dict\<close> has this form.
\<close>

theorem remote_filename_and_url_format:
  assumes "date_window today span_days = Inr window"
    and "d \<in> set window"
    and "tod \<in> set [''00'', ''12'']"
  shows "dates_str today span_days = Inr (map strftime_Ymd window)
       \<and> length (strftime_Ymd d) = 8
       \<and> (\<forall>c \<in> set (strftime_Ymd d). c \<in> set ''0123456789'')
       \<and> (\<exists>year month day. ymd2ord year month day = d \<and>
             strftime_Ymd d = zfill 4 (str_nat (nat year)) @ zfill 2 (str_nat (nat month))
                                @ zfill 2 (str_nat (nat day)))
       \<and> map_of (build_url_dict model filetype filenames (map strftime_Ymd window))
            (strftime_Ymd d @ ''_'' @ tod @ ''0000_'' @ model @ filetype)
          = (if strftime_Ymd d @ ''_'' @ tod @ ''0000_'' @ model @ filetype \<in> set filenames
             then None
             else Some (''https://weather.ral.ucar.edu/data/upper/'' @ strftime_Ymd d @ ''/''
                        @ strftime_Ymd d @ ''_'' @ tod @ ''0000_'' @ model @ filetype))
       \<and> (\<forall>(filename, url) \<in> set (build_url_dict model filetype filenames (map strftime_Ymd window)).
             \<exists>d' \<in> set window. \<exists>tod' \<in> set [''00'', ''12''].
               filename = strftime_Ymd d' @ ''_'' @ tod' @ ''0000_'' @ model @ filetype
               \<and> url = ''https://weather.ral.ucar.edu/data/upper/'' @ strftime_Ymd d' @ ''/''
                        @ filename)"
proof -
  let ?dates = "map strftime_Ymd window"
  let ?fn = "strftime_Ymd d @ ''_'' @ tod @ ''0000_'' @ model @ filetype"
  have valid: "1 \<le> d" "d \<le> MAXORDINAL"
    using date_window_valid(2) [OF assms(1)] assms(2) by simp_all
  have a: "dates_str today span_days = Inr ?dates"
    using assms(1) by (simp add: dates_str_def)
  have b: "length (strftime_Ymd d) = 8" using valid by (rule strftime_Ymd_length)
  have c: "\<forall>c \<in> set (strftime_Ymd d). c \<in> set ''0123456789''"
    using strftime_Ymd_digits digit_char by blast
  obtain y m dd where o: "ord2ymd d = (y, m, dd)" by (cases "ord2ymd d") blast
  have "ymd2ord y m dd = d" using ord2ymd_correct [OF valid(1) o] by simp
  moreover have "strftime_Ymd d = zfill 4 (str_nat (nat y)) @ zfill 2 (str_nat (nat m))
      @ zfill 2 (str_nat (nat dd))"
    by (simp add: strftime_Ymd_def o)
  ultimately have e: "\<exists>year month day. ymd2ord year month day = d \<and>
      strftime_Ymd d = zfill 4 (str_nat (nat year)) @ zfill 2 (str_nat (nat month))
        @ zfill 2 (str_nat (nat day))"
    by blast
  have plain: "\<forall>dt \<in> set ?dates. CHR ''_'' \<notin> set dt"
    using strftime_Ymd_no_underscore by auto
  have fn: "?fn = remote_filename (strftime_Ymd d) tod model filetype"
    by (simp add: remote_filename_def)
  have "\<exists>dt \<in> set ?dates. \<exists>tod' \<in> set [''00'', ''12''].
      ?fn = remote_filename dt tod' model filetype"
    unfolding fn using assms(2,3) by (intro bexI [of _ "strftime_Ymd d"] bexI [of _ tod]) simp_all
  moreover have "takeWhile (\<lambda>c. c \<noteq> CHR ''_'') ?fn = strftime_Ymd d"
    unfolding fn by (rule remote_filename_date) (rule strftime_Ymd_no_underscore)
  ultimately have f: "map_of (build_url_dict model filetype filenames ?dates) ?fn
      = (if ?fn \<in> set filenames then None
         else Some (''https://weather.ral.ucar.edu/data/upper/'' @ strftime_Ymd d @ ''/'' @ ?fn))"
    unfolding build_url_dict_lookup [OF plain]
    by (simp add: remote_url_def BASE_URL_def)
  have g: "\<forall>(filename, url) \<in> set (build_url_dict model filetype filenames ?dates).
      \<exists>d' \<in> set window. \<exists>tod' \<in> set [''00'', ''12''].
        filename = strftime_Ymd d' @ ''_'' @ tod' @ ''0000_'' @ model @ filetype
        \<and> url = ''https://weather.ral.ucar.edu/data/upper/'' @ strftime_Ymd d' @ ''/'' @ filename"
  proof (clarify)
    fix k v
    assume "(k, v) \<in> set (build_url_dict model filetype filenames ?dates)"
    from build_url_dict_entries [OF plain this]
    obtain dt tod' where "dt \<in> set ?dates" "tod' \<in> set [''00'', ''12'']"
      "k = remote_filename dt tod' model filetype" "v = remote_url dt k"
      by blast
    then show "\<exists>d' \<in> set window. \<exists>tod' \<in> set [''00'', ''12''].
        k = strftime_Ymd d' @ ''_'' @ tod' @ ''0000_'' @ model @ filetype
        \<and> v = ''https://weather.ral.ucar.edu/data/upper/'' @ strftime_Ymd d' @ ''/'' @ k"
      by (auto simp add: remote_filename_def remote_url_def BASE_URL_def)
  qed
  from a b c e f g show ?thesis by blast
qed


theorem remote_filename_and_url_format_witness:
  "dates_str (ymd2ord 2024 1 3) 1 = Inr [''20240102'']
   \<and> map_of (build_url_dict ''KFWD'' ''.png'' [''20240102_000000_KFWD.png''] [''20240102''])
        ''20240102_120000_KFWD.png''
      = Some ''https://weather.ral.ucar.edu/data/upper/20240102/20240102_120000_KFWD.png''"
proof -
  have t: "ymd2ord 2024 1 3 = 738888"
    by (simp add: ymd2ord_def days_before_year_def days_before_month_def DAYS_BEFORE_MONTH_def
        is_leap_def)
  have w: "date_window 738888 1 = Inr [738887]"
    by (simp add: date_window_def range_down_def upto.simps minus_days_def MAXORDINAL_def)
  have s: "strftime_Ymd 738887 = ''20240102''"
    by code_simp
  have d: "(738887::int) \<in> set [738887]" and tod: "''12'' \<in> set [''00'', ''12'']"
    by simp_all
  from remote_filename_and_url_format
    [OF w d tod, of "''KFWD''" "''.png''" "[''20240102_000000_KFWD.png'']"]
  show ?thesis unfolding t by (simp add: s)
qed

section \<open>Properties of the cache scan\<close>

lemma fnmatch_literal:
  "\<forall>c \<in> set s. c \<noteq> CHR ''*'' \<and> c \<noteq> CHR ''?'' \<and> c \<noteq> CHR ''['' \<Longrightarrow> fnmatch s n \<longleftrightarrow> n = s"
proof (induction s arbitrary: n)
  case Nil
  show ?case by simp
next
  case (Cons c s)
  then show ?case by (cases n) auto
qed

lemma fnmatch_star_literal:
  assumes "\<forall>c \<in> set s. c \<noteq> CHR ''*'' \<and> c \<noteq> CHR ''?'' \<and> c \<noteq> CHR ''[''"
  shows "fnmatch (CHR ''*'' # s) n \<longleftrightarrow> suffix s n"
proof (induction n)
  case Nil
  show ?case using fnmatch_literal [OF assms, of "[]"] by auto
next
  case (Cons x n)
  show ?case using fnmatch_literal [OF assms, of "x # n"] Cons.IH
    by (auto simp add: suffix_Cons)
qed

lemma split_acc_no_sep: "c \<notin> set s \<Longrightarrow> split_acc c cur s = [cur @ s]"
  by (induction s arbitrary: cur) auto

lemma split_acc_sep:
  "c \<notin> set xs \<Longrightarrow> split_acc c cur (xs @ c # ys) = (cur @ xs) # split_acc c [] ys"
  by (induction xs arbitrary: cur) auto

lemma parse_parts_scan_pattern:
  assumes "CHR ''/'' \<notin> set s"
  shows "parse_parts (''**/*'' @ s) = [''**'', CHR ''*'' # s]"
proof -
  have "split CHR ''/'' (''**/*'' @ s) = [''**'', CHR ''*'' # s]"
    using split_acc_sep [of "CHR ''/''" "''**''" "[]" "CHR ''*'' # s"]
      split_acc_no_sep [of "CHR ''/''" "CHR ''*'' # s" "[]"] assms
    by (simp add: split_def)
  then show ?thesis by (simp add: parse_parts_def)
qed

lemma no_star_no_double_star: "CHR ''*'' \<notin> set s \<Longrightarrow> \<not> has_double_star s"
  by (induction s rule: has_double_star.induct) auto

lemma star_literal_no_double_star:
  "CHR ''*'' \<notin> set s \<Longrightarrow> \<not> has_double_star (CHR ''*'' # s)"
  using no_star_no_double_star [of s] by (cases s) auto

lemma glob_scan_pattern:
  assumes "literal_name s"
  shows "glob fs [] (''**/*'' @ s)
     = Inr (if is_dir fs [] then select_from fs [''**'', CHR ''*'' # s] [] else [])"
proof -
  have sep: "CHR ''/'' \<notin> set s" and star: "CHR ''*'' \<notin> set s"
    using assms by (auto simp add: literal_name_def)
  have "\<not> list_ex (\<lambda>part. part \<noteq> ''**'' \<and> has_double_star part) [''**'', CHR ''*'' # s]"
    using star_literal_no_double_star [OF star] by simp
  then show ?thesis
    unfolding glob_def parse_parts_scan_pattern [OF sep] Let_def by simp
qed

lemma select_children:
  "part \<noteq> ''**'' \<Longrightarrow>
   set (select_from fs [part] d) = {c \<in> set (children fs d). fnmatch part (name c)}"
  by (subst select_from.simps) auto

lemma select_recursive:
  "set (select_from fs (''**'' # parts) d)
     = (\<Union>dir \<in> set (directories_under fs d). set (select_from fs parts dir))"
  by (subst select_from.simps) simp

lemma select_scan_set:
  assumes "literal_name s"
  shows "set (select_from fs [''**'', CHR ''*'' # s] [])
     = {p \<in> set (map fst fs). p \<noteq> [] \<and> suffix s (name p)
          \<and> (butlast p = [] \<or> is_dir fs (butlast p) \<and> butlast p \<in> set (map fst fs))}"
    (is "?L = ?R")
proof -
  have lit: "\<forall>c \<in> set s. c \<noteq> CHR ''*'' \<and> c \<noteq> CHR ''?'' \<and> c \<noteq> CHR ''[''"
    using assms by (simp add: literal_name_def)
  have neq: "CHR ''*'' # s \<noteq> ''**''" using assms by (cases s) (simp_all add: literal_name_def)
  have dirs: "dir \<in> set (directories_under fs []) \<longleftrightarrow>
      dir = [] \<or> (dir \<in> set (map fst fs) \<and> is_dir fs dir)" for dir
    by (auto simp add: directories_under_def strict_prefix_def)
  have kids: "p \<in> set (select_from fs [CHR ''*'' # s] dir) \<longleftrightarrow>
      p \<in> set (map fst fs) \<and> p \<noteq> [] \<and> butlast p = dir \<and> suffix s (name p)" for p dir
    unfolding select_children [OF neq] fnmatch_star_literal [OF lit]
    by (auto simp add: children_def)
  have mem: "p \<in> ?L \<longleftrightarrow>
      (\<exists>dir. dir \<in> set (directories_under fs []) \<and> p \<in> set (select_from fs [CHR ''*'' # s] dir))" for p
    unfolding select_recursive by blast
  show ?thesis
  proof (rule set_eqI)
    fix p
    show "p \<in> ?L \<longleftrightarrow> p \<in> ?R"
      unfolding mem kids dirs by (simp, blast)
  qed
qed

lemma is_dir_in_table: "is_dir fs p \<Longrightarrow> p \<in> set (map fst fs)"
  by (auto simp add: is_dir_def dest: map_of_SomeD intro: rev_image_eqI)

lemma scan_filenames_cached:
  assumes "literal_name (model @ filetype)"
    and "cached fs filename"
    and "suffix (model @ filetype) filename"
  shows "\<exists>filenames. scan_filenames fs model filetype = Inr filenames \<and> filename \<in> set filenames"
proof -
  from assms(2) obtain p where root: "is_dir fs []" and p: "p \<in> set (map fst fs)" "p \<noteq> []"
      "name p = filename" "is_file fs p" "is_dir fs (butlast p)"
    unfolding cached_def by blast
  have "p \<in> set (select_from fs [''**'', CHR ''*'' # (model @ filetype)] [])"
    unfolding select_scan_set [OF assms(1)] using p assms(3) is_dir_in_table [OF p(5)] by simp
  then have "filename \<in> set (map name (filter (is_file fs)
      (select_from fs [''**'', CHR ''*'' # (model @ filetype)] [])))"
    using p(3,4) by force
  then show ?thesis
    using root glob_scan_pattern [OF assms(1), of fs]
    by (simp add: scan_filenames_def)
qed

lemma scan_filenames_literal:
  assumes "literal_name (model @ filetype)"
  shows "\<exists>filenames. scan_filenames fs model filetype = Inr filenames"
  using glob_scan_pattern [OF assms, of fs] by (simp add: scan_filenames_def)

lemma queue_all_known:
  assumes "\<forall>dt \<in> set dates. \<forall>tod \<in> set tods. remote_filename dt tod model filetype \<in> set filenames"
  shows "fold (\<lambda>dt url_dict. fold (queue_tod model filetype filenames dt) tods url_dict) dates d = d"
proof -
  have inner: "\<forall>tod \<in> set ts. remote_filename dt tod model filetype \<in> set filenames \<Longrightarrow>
      fold (queue_tod model filetype filenames dt) ts d' = d'" for dt ts d'
    by (induction ts arbitrary: d') (simp_all add: queue_tod_def)
  show ?thesis using assms
    by (induction dates arbitrary: d) (simp_all add: inner)
qed

lemma build_url_dict_all_known:
  assumes "\<forall>dt \<in> set dates. \<forall>tod \<in> set [''00'', ''12''].
      remote_filename dt tod model filetype \<in> set filenames"
  shows "build_url_dict model filetype filenames dates = []"
  unfolding build_url_dict_def by (rule queue_all_known [OF assms])


section \<open>Properties of the download loop\<close>

lemma retrieve_loop_requests:
  "\<exists>rs. prefix rs (map snd queue)
     \<and> requested (snd (retrieve_loop http model i queue w)) = requested w @ rs"
proof (induction queue arbitrary: i w)
  case Nil
  show ?case by simp
next
  case (Cons entry queue)
  obtain filename url where entry: "entry = (filename, url)" by (cases entry)
  let ?filepath = "joinpath [] (model @ ''/'' @ filename)"
  let ?made = "if i = 0 then mkdir_parents (files w) (butlast ?filepath) else Inr (files w)"
  show ?case
  proof (cases ?made)
    case (Inl e)
    then have "retrieve_loop http model i (entry # queue) w = (Inl e, w)"
      by (simp only: entry retrieve_loop.simps Let_def sum.case)
    then show ?thesis by simp
  next
    case (Inr fs)
    let ?w = "w\<lparr>files := fs, requested := requested w @ [url]\<rparr>"
    have step: "retrieve_loop http model i (entry # queue) w =
        (case http url of
           Inl e \<Rightarrow> (Inl e, ?w)
         | Inr resp \<Rightarrow>
             if status_code resp = 200 then
               (case write_bytes (files ?w) ?filepath (content resp) of
                  Inl e \<Rightarrow> (Inl e, ?w)
                | Inr fs' \<Rightarrow>
                    retrieve_loop http model (i + 1) queue (?w\<lparr>files := fs', slept := slept ?w + 3\<rparr>))
             else
               (case raise_for_status resp of
                  Some e \<Rightarrow> (Inl e, ?w)
                | None \<Rightarrow> retrieve_loop http model (i + 1) queue ?w))"
      using Inr by (simp only: entry retrieve_loop.simps Let_def sum.case)
    have stop: "\<exists>rs. prefix rs (map snd (entry # queue)) \<and> requested ?w = requested w @ rs"
      by (rule exI [of _ "[url]"]) (simp add: entry)
    have continue: "\<exists>rs. prefix rs (map snd (entry # queue))
        \<and> requested (snd (retrieve_loop http model (i + 1) queue w')) = requested w @ rs"
      if "requested w' = requested w @ [url]" for w'
    proof -
      from Cons.IH [of "i + 1" w'] obtain rs where
        "prefix rs (map snd queue)"
        "requested (snd (retrieve_loop http model (i + 1) queue w')) = requested w' @ rs"
        by blast
      then show ?thesis using that by (intro exI [of _ "url # rs"]) (simp add: entry)
    qed
    show ?thesis
    proof (cases "http url")
      case (Inl e)
      then show ?thesis unfolding step using stop by simp
    next
      case resp: (Inr resp)
      show ?thesis
      proof (cases "status_code resp = 200")
        case True
        show ?thesis
        proof (cases "write_bytes (files ?w) ?filepath (content resp)")
          case (Inl e)
          then show ?thesis unfolding step using stop resp True by simp
        next
          case (Inr fs')
          then show ?thesis unfolding step
            using continue [of "?w\<lparr>files := fs', slept := slept ?w + 3\<rparr>"] resp True by simp
        qed
      next
        case False
        show ?thesis
        proof (cases "raise_for_status resp")
          case (Some e)
          then show ?thesis unfolding step using stop resp False by simp
        next
          case None
          then show ?thesis unfolding step using continue [of ?w] resp False by simp
        qed
      qed
    qed
  qed
qed

lemma remote_url_inject:
  "length dt = length dt' \<Longrightarrow> remote_url dt k = remote_url dt' k' \<Longrightarrow> dt = dt' \<and> k = k'"
  by (simp add: remote_url_def)


section \<open>Repeated runs of the retriever\<close>

text \<open>
  The scan recognises the cached files of a model whose identifier and extension are
  literal names. For those, and a valid date window: when every expected remote filename
  of the window is cached, a run of \<^verbatim>\<open>retrieve_imgs\<close> returns and leaves the state as it
  found it, so it issues no request and writes no file; and in any cache state, the URL of
  an expected filename that is cached is not among the requests of the run.
\<close>

lemma retrieve_imgs_skips_cached_files:
  assumes "literal_name (model @ filetype)"
    and "date_window today span_days = Inr window"
  shows "((\<forall>d \<in> set window. \<forall>tod \<in> set [''00'', ''12''].
            cached (files w) (strftime_Ymd d @ ''_'' @ tod @ ''0000_'' @ model @ filetype))
          \<longrightarrow> retrieve_imgs today http model filetype span_days w = (Inr (), w))
       \<and> (\<forall>d \<in> set window. \<forall>tod \<in> set [''00'', ''12''].
            cached (files w) (strftime_Ymd d @ ''_'' @ tod @ ''0000_'' @ model @ filetype)
            \<longrightarrow> ''https://weather.ral.ucar.edu/data/upper/'' @ strftime_Ymd d @ ''/''
                   @ strftime_Ymd d @ ''_'' @ tod @ ''0000_'' @ model @ filetype
                 \<notin> set (drop (length (requested w))
                      (requested (snd (retrieve_imgs today http model filetype span_days w)))))"
proof -
  let ?dates = "map strftime_Ymd window"
  let ?fn = "\<lambda>d tod. strftime_Ymd d @ ''_'' @ tod @ ''0000_'' @ model @ filetype"
  have fn: "?fn d tod = remote_filename (strftime_Ymd d) tod model filetype" for d tod
    by (simp add: remote_filename_def)
  have suffix: "suffix (model @ filetype) (?fn d tod)" for d tod
    by (simp add: suffix_def)
  have dates: "dates_str today span_days = Inr ?dates"
    using assms(2) by (simp add: dates_str_def)
  obtain filenames where scan: "scan_filenames (files w) model filetype = Inr filenames"
    using scan_filenames_literal [OF assms(1)] by blast
  have known: "?fn d tod \<in> set filenames" if "cached (files w) (?fn d tod)" for d tod
    using scan_filenames_cached [OF assms(1) that suffix] scan by simp
  let ?queue = "build_url_dict model filetype filenames ?dates"
  have run: "retrieve_imgs today http model filetype span_days w = retrieve_loop http model 0 ?queue w"
    by (simp add: retrieve_imgs_def dates scan)
  have all: "retrieve_imgs today http model filetype span_days w = (Inr (), w)"
    if "\<forall>d \<in> set window. \<forall>tod \<in> set [''00'', ''12'']. cached (files w) (?fn d tod)"
  proof -
    have "\<forall>dt \<in> set ?dates. \<forall>tod \<in> set [''00'', ''12''].
        remote_filename dt tod model filetype \<in> set filenames"
      using that known unfolding fn by auto
    then have "?queue = []" by (rule build_url_dict_all_known)
    then show ?thesis unfolding run by simp
  qed
  have plain: "\<forall>dt \<in> set ?dates. CHR ''_'' \<notin> set dt"
    using strftime_Ymd_no_underscore by auto
  have valid: "\<forall>d \<in> set window. 1 \<le> d \<and> d \<le> MAXORDINAL"
    by (rule date_window_valid(2) [OF assms(2)])
  have one: "''https://weather.ral.ucar.edu/data/upper/'' @ strftime_Ymd d @ ''/'' @ ?fn d tod
      \<notin> set (drop (length (requested w))
           (requested (snd (retrieve_imgs today http model filetype span_days w))))"
    if d: "d \<in> set window" and c: "cached (files w) (?fn d tod)" for d tod
  proof
    let ?url = "''https://weather.ral.ucar.edu/data/upper/'' @ strftime_Ymd d @ ''/'' @ ?fn d tod"
    assume req: "?url \<in> set (drop (length (requested w))
        (requested (snd (retrieve_imgs today http model filetype span_days w))))"
    obtain rs where rs: "prefix rs (map snd ?queue)"
        "requested (snd (retrieve_loop http model 0 ?queue w)) = requested w @ rs"
      using retrieve_loop_requests by blast
    have "?url \<in> set rs" using req unfolding run rs(2) by simp
    then have "?url \<in> set (map snd ?queue)" using rs(1) set_mono_prefix by blast
    then obtain k where "(k, ?url) \<in> set ?queue" by auto
    from build_url_dict_entries [OF plain this]
    obtain dt tod' where k: "k \<notin> set filenames" "dt \<in> set ?dates" "?url = remote_url dt k"
      by blast
    from k(2) obtain d' where d': "d' \<in> set window" "dt = strftime_Ymd d'" by auto
    have len: "length (strftime_Ymd d) = length dt"
      using valid d d' by (simp add: strftime_Ymd_length)
    have "?url = remote_url (strftime_Ymd d) (?fn d tod)"
      by (simp add: remote_url_def BASE_URL_def)
    then have "remote_url (strftime_Ymd d) (?fn d tod) = remote_url dt k"
      using k(3) by (simp only:)
    from remote_url_inject [OF len this] have "?fn d tod = k" by (rule conjunct2)
    then show False using k(1) known [OF c] by simp
  qed
  from all one show ?thesis by blast
qed


lemma retrieve_imgs_skips_cached_files_example:
  "retrieve_imgs (ymd2ord 2024 1 3) (\<lambda>url. Inl RequestException) ''KFWD'' ''.png'' 1
     \<lparr>files = [([], Dir), ([''KFWD''], Dir),
               ([''KFWD'', ''20240102_000000_KFWD.png''], File ''a''),
               ([''KFWD'', ''20240102_120000_KFWD.png''], File ''b'')],
      requested = [], slept = 0\<rparr>
   = (Inr (),
      \<lparr>files = [([], Dir), ([''KFWD''], Dir),
                ([''KFWD'', ''20240102_000000_KFWD.png''], File ''a''),
                ([''KFWD'', ''20240102_120000_KFWD.png''], File ''b'')],
       requested = [], slept = 0\<rparr>)"
proof -
  let ?fs = "[([], Dir), ([''KFWD''], Dir),
             ([''KFWD'', ''20240102_000000_KFWD.png''], File ''a''),
             ([''KFWD'', ''20240102_120000_KFWD.png''], File ''b'')]"
  let ?w = "\<lparr>files = ?fs, requested = [], slept = 0\<rparr>"
  have t: "ymd2ord 2024 1 3 = 738888"
    by (simp add: ymd2ord_def days_before_year_def days_before_month_def DAYS_BEFORE_MONTH_def
        is_leap_def)
  have lit: "literal_name (''KFWD'' @ ''.png'')"
    by (simp add: literal_name_def)
  have win: "date_window 738888 1 = Inr [738887]"
    by (simp add: date_window_def range_down_def upto.simps minus_days_def MAXORDINAL_def)
  have s: "strftime_Ymd 738887 = ''20240102''"
    by code_simp
  have "cached ?fs ''20240102_000000_KFWD.png''" "cached ?fs ''20240102_120000_KFWD.png''"
    by (simp_all add: cached_def is_dir_def is_file_def name_def)
  then have all: "\<forall>d \<in> set [738887]. \<forall>tod \<in> set [''00'', ''12''].
      cached (files ?w) (strftime_Ymd d @ ''_'' @ tod @ ''0000_'' @ ''KFWD'' @ ''.png'')"
    by (simp add: s)
  from retrieve_imgs_skips_cached_files [OF lit win, of ?w "\<lambda>url. Inl RequestException"] all
  show ?thesis unfolding t by blast
qed

text \<open>
  Claim C1. A run that finds every expected remote filename of the window in the cache is
  meant to issue no request and to write no file: the scan of the data directory is there
  to skip the files that exist. The scan pattern is built from the model identifier as it
  is, so with the identifier \<open>a[b]\<close> it reads \<open>[b]\<close> as a character class, which the
  names of the model's own files do not match: both files of the window are cached, and
  both are requested and written again.
\<close>

theorem retrieve_imgs_refetches_bracketed_model:
  "cached [([], Dir), ([''a[b]''], Dir),
           ([''a[b]'', ''20240102_000000_a[b].png''], File ''old''),
           ([''a[b]'', ''20240102_120000_a[b].png''], File ''old'')]
     ''20240102_000000_a[b].png''
   \<and> cached [([], Dir), ([''a[b]''], Dir),
           ([''a[b]'', ''20240102_000000_a[b].png''], File ''old''),
           ([''a[b]'', ''20240102_120000_a[b].png''], File ''old'')]
     ''20240102_120000_a[b].png''
   \<and> dates_str (ymd2ord 2024 1 3) 1 = Inr [''20240102'']
   \<and> retrieve_imgs (ymd2ord 2024 1 3) (\<lambda>url. Inr \<lparr>status_code = 200, content = ''new''\<rparr>)
        ''a[b]'' ''.png'' 1
        \<lparr>files = [([], Dir), ([''a[b]''], Dir),
                  ([''a[b]'', ''20240102_000000_a[b].png''], File ''old''),
                  ([''a[b]'', ''20240102_120000_a[b].png''], File ''old'')],
         requested = [], slept = 0\<rparr>
     = (Inr (),
        \<lparr>files = [([], Dir), ([''a[b]''], Dir),
                  ([''a[b]'', ''20240102_000000_a[b].png''], File ''new''),
                  ([''a[b]'', ''20240102_120000_a[b].png''], File ''new'')],
         requested = [''https://weather.ral.ucar.edu/data/upper/20240102/20240102_000000_a[b].png'',
                      ''https://weather.ral.ucar.edu/data/upper/20240102/20240102_120000_a[b].png''],
         slept = 6\<rparr>)"
  by code_simp


text \<open>
  Claim C3. A response with a status other than 200 is meant to end the run with an error.
  With status 204 for every URL, \<^verbatim>\<open>raise_for_status\<close> has nothing to raise: the run
  returns normally after requesting the second file of the queue as well. No file is
  written.
\<close>

theorem retrieve_imgs_continues_after_status_204:
  "retrieve_imgs (ymd2ord 2024 1 3) (\<lambda>url. Inr \<lparr>status_code = 204, content = ''''\<rparr>)
     ''KFWD'' ''.png'' 1 \<lparr>files = [([], Dir)], requested = [], slept = 0\<rparr>
   = (Inr (),
      \<lparr>files = [([], Dir), ([''KFWD''], Dir)],
       requested = [''https://weather.ral.ucar.edu/data/upper/20240102/20240102_000000_KFWD.png'',
                    ''https://weather.ral.ucar.edu/data/upper/20240102/20240102_120000_KFWD.png''],
       slept = 0\<rparr>)"
  by code_simp


section \<open>Properties of the animation builder\<close>

lemma parse_parts_all: "parse_parts ''**/*'' = [''**'', ''*'']"
  by (simp add: parse_parts_def split_def)

lemma glob_all:
  "glob fs base ''**/*'' = Inr (if is_dir fs base then select_from fs [''**'', ''*''] base else [])"
  unfolding glob_def parse_parts_all Let_def by simp

lemma select_all_set:
  "set (select_from fs [''**'', ''*''] base)
     = {p \<in> set (map fst fs). p \<noteq> [] \<and>
          (butlast p = base \<or>
           strict_prefix base (butlast p) \<and> is_dir fs (butlast p) \<and> butlast p \<in> set (map fst fs))}"
    (is "?L = ?R")
proof -
  have lit: "\<forall>c \<in> set ''''. c \<noteq> CHR ''*'' \<and> c \<noteq> CHR ''?'' \<and> c \<noteq> CHR ''[''" by simp
  have neq: "''*'' \<noteq> ''**''" by simp
  have dirs: "dir \<in> set (directories_under fs base) \<longleftrightarrow>
      dir = base \<or> (dir \<in> set (map fst fs) \<and> strict_prefix base dir \<and> is_dir fs dir)" for dir
    by (auto simp add: directories_under_def)
  have kids: "p \<in> set (select_from fs [''*''] dir) \<longleftrightarrow>
      p \<in> set (map fst fs) \<and> p \<noteq> [] \<and> butlast p = dir" for p dir
    unfolding select_children [OF neq] fnmatch_star_literal [OF lit]
    by (auto simp add: children_def)
  have mem: "p \<in> ?L \<longleftrightarrow>
      (\<exists>dir. dir \<in> set (directories_under fs base) \<and> p \<in> set (select_from fs [''*''] dir))" for p
    unfolding select_recursive by blast
  show ?thesis
  proof (rule set_eqI)
    fix p
    show "p \<in> ?L \<longleftrightarrow> p \<in> ?R"
      unfolding mem kids dirs by (simp, blast)
  qed
qed

lemma select_all_distinct: "distinct (select_from fs [''**'', ''*''] base)"
  by (subst select_from.simps) simp

lemma frame_paths_sorted: "sorted (frame_paths fs model) \<and> distinct (frame_paths fs model)"
  by (simp add: frame_paths_def glob_all select_all_distinct del: select_from.simps)

lemma frame_paths_set:
  "set (frame_paths fs model) =
     (if is_dir fs (joinpath [] model)
      then {p \<in> set (map fst fs). p \<noteq> [] \<and>
              (butlast p = joinpath [] model \<or>
               strict_prefix (joinpath [] model) (butlast p) \<and> is_dir fs (butlast p)
                 \<and> butlast p \<in> set (map fst fs))}
      else {})"
  by (simp add: frame_paths_def glob_all select_all_set del: select_from.simps)

lemma strict_prefix_butlast: "p \<noteq> [] \<Longrightarrow> strict_prefix (butlast p) p"
  by (metis append_butlast_last_id not_Cons_self2 prefixI self_append_conv strict_prefix_def)

lemma frame_paths_below:
  "p \<in> set (frame_paths fs model) \<Longrightarrow> strict_prefix (joinpath [] model) p"
proof -
  assume "p \<in> set (frame_paths fs model)"
  then have p: "p \<noteq> []" "butlast p = joinpath [] model \<or> strict_prefix (joinpath [] model) (butlast p)"
    unfolding frame_paths_set by (auto split: if_splits)
  from p(2) show ?thesis
  proof
    assume "butlast p = joinpath [] model"
    then show ?thesis using strict_prefix_butlast [OF p(1)] by simp
  next
    assume "strict_prefix (joinpath [] model) (butlast p)"
    then show ?thesis using strict_prefix_butlast [OF p(1)]
      by (meson prefix_order.less_trans)
  qed
qed

lemma frame_paths_empty:
  assumes "\<not> is_dir fs (joinpath [] model)
      \<or> (\<forall>p \<in> set (map fst fs). \<not> strict_prefix (joinpath [] model) p)"
  shows "frame_paths fs model = []"
proof (rule ccontr)
  assume "frame_paths fs model \<noteq> []"
  then obtain p where p: "p \<in> set (frame_paths fs model)" by (cases "frame_paths fs model") auto
  then have "is_dir fs (joinpath [] model)" "p \<in> set (map fst fs)"
    unfolding frame_paths_set by (auto split: if_splits)
  then show False using assms frame_paths_below [OF p] by blast
qed

text \<open>
  Claim C8. When the cache subdirectory of the model is absent or no entry of the data
  directory lies below it, \<^verbatim>\<open>build_gif\<close> raises \<^verbatim>\<open>StopIteration\<close> at \<^verbatim>\<open>next(imgs)\<close>, which
  nothing catches, and the data directory is left as it was: no animation is written.
\<close>

theorem build_gif_empty_cache_raises:
  assumes "\<not> is_dir fs (joinpath [] model)
      \<or> (\<forall>p \<in> set (map fst fs). \<not> strict_prefix (joinpath [] model) p)"
  shows "build_gif decode encode today model fs = (Inl StopIteration, fs)"
  using frame_paths_empty [OF assms] by (simp add: build_gif_def)


theorem build_gif_empty_cache_raises_witness:
  "build_gif Some (\<lambda>frames duration loop. concat frames) (ymd2ord 2024 1 3) ''KFWD''
     [([], Dir), ([''gifs''], Dir)]
   = (Inl StopIteration, [([], Dir), ([''gifs''], Dir)])
   \<and> build_gif Some (\<lambda>frames duration loop. concat frames) (ymd2ord 2024 1 3) ''KFWD''
     [([], Dir), ([''KFWD''], Dir), ([''gifs''], Dir)]
   = (Inl StopIteration, [([], Dir), ([''KFWD''], Dir), ([''gifs''], Dir)])"
proof -
  have base: "joinpath [] ''KFWD'' = [''KFWD'']"
    by (simp add: joinpath_def parse_parts_def split_def)
  have absent: "\<not> is_dir [([], Dir), ([''gifs''], Dir)] (joinpath [] ''KFWD'')
      \<or> (\<forall>p \<in> set (map fst [([], Dir), ([''gifs''], Dir)]). \<not> strict_prefix (joinpath [] ''KFWD'') p)"
    unfolding base by (simp add: is_dir_def)
  have empty: "\<not> is_dir [([], Dir), ([''KFWD''], Dir), ([''gifs''], Dir)] (joinpath [] ''KFWD'')
      \<or> (\<forall>p \<in> set (map fst [([], Dir), ([''KFWD''], Dir), ([''gifs''], Dir)]).
            \<not> strict_prefix (joinpath [] ''KFWD'') p)"
    unfolding base by simp
  from build_gif_empty_cache_raises [OF absent] build_gif_empty_cache_raises [OF empty]
  show ?thesis by blast
qed

subsection \<open>The frames of the animation\<close>

lemma write_bytes_lookup:
  "write_bytes fs p data = Inr fs' \<Longrightarrow> map_of fs' = (map_of fs)(p \<mapsto> File data)"
  by (auto simp add: write_bytes_def map_of_dict_set split: if_splits)

lemma dict_set_twice:
  "dict_set (dict_set d k v) k v' = dict_set d k v'"
  by (induction d) auto

lemma open_all_images:
  "list_all2 (\<lambda>p img. \<exists>data. map_of fs p = Some (File data) \<and> decode data = Some img) ps imgs
   \<Longrightarrow> open_all decode fs ps = Inr imgs"
  by (induction rule: list_all2_induct) (auto simp add: image_open_def)

text \<open>
  A flat cache of images. Let the cache subdirectory of the model be non-empty, let every
  entry found below it be a file that holds an image, and let the output path be writable
  (its directory exists, the path is not a directory and is not itself one of the entries
  found). Then \<^verbatim>\<open>build_gif\<close> returns normally and hands the encoder, with a frame
  duration of 300 and 3 loops, exactly one frame for each entry found, in the sorted order
  of the paths: the frame at each position is the image decoded from the entry at that
  position of the sorted list.
\<close>

lemma build_gif_encodes_sorted_image_files:
  assumes nonempty: "frame_paths fs model \<noteq> []"
    and images: "list_all2
        (\<lambda>p frame. \<exists>data. map_of fs p = Some (File data) \<and> decode data = Some frame)
        (frame_paths fs model) frames"
    and parent: "is_dir fs (butlast (gif_path today model))"
    and nodir: "\<not> is_dir fs (gif_path today model)"
    and fresh: "gif_path today model \<notin> set (frame_paths fs model)"
  shows "build_gif decode encode today model fs
           = (Inr (), dict_set fs (gif_path today model) (File (encode frames 300 3)))
         \<and> length frames = length (frame_paths fs model)
         \<and> sorted (frame_paths fs model) \<and> distinct (frame_paths fs model)
         \<and> set (frame_paths fs model) =
             {p \<in> set (map fst fs). p \<noteq> [] \<and>
                (butlast p = joinpath [] model \<or>
                 strict_prefix (joinpath [] model) (butlast p) \<and> is_dir fs (butlast p)
                   \<and> butlast p \<in> set (map fst fs))}"
proof -
  let ?out = "gif_path today model"
  let ?fs1 = "dict_set fs ?out (File '''')"
  from nonempty obtain f rest where paths: "frame_paths fs model = f # rest"
    by (cases "frame_paths fs model") auto
  from images obtain img imgs where frames: "frames = img # imgs"
    and head: "\<exists>data. map_of fs f = Some (File data) \<and> decode data = Some img"
    and tail: "list_all2
        (\<lambda>p frame. \<exists>data. map_of fs p = Some (File data) \<and> decode data = Some frame) rest imgs"
    unfolding paths by (auto simp add: list_all2_Cons1)
  have first: "image_open decode fs f = Inr img"
    using head by (auto simp add: image_open_def)
  have "?out \<noteq> []"
    using parent nodir by auto
  then have trunc: "write_bytes fs ?out '''' = Inr ?fs1"
    using parent nodir by (simp add: write_bytes_def is_file_def is_dir_def)
  have "\<forall>p \<in> set rest. map_of ?fs1 p = map_of fs p"
    using fresh unfolding paths by (auto simp add: map_of_dict_set)
  with tail have "list_all2
      (\<lambda>p frame. \<exists>data. map_of ?fs1 p = Some (File data) \<and> decode data = Some frame) rest imgs"
    by (auto simp add: list_all2_conv_all_nth)
  then have others: "open_all decode ?fs1 rest = Inr imgs"
    by (rule open_all_images)
  have run: "build_gif decode encode today model fs
      = (Inr (), dict_set fs ?out (File (encode frames 300 3)))"
    unfolding build_gif_def paths frames
    by (simp only: first trunc others list.case sum.case dict_set_twice)
  have len: "length frames = length (frame_paths fs model)"
    using images by (simp add: list_all2_lengthD)
  have "is_dir fs (joinpath [] model)"
    using nonempty frame_paths_set [of fs model] by (auto split: if_splits)
  then have found: "set (frame_paths fs model) =
      {p \<in> set (map fst fs). p \<noteq> [] \<and>
         (butlast p = joinpath [] model \<or>
          strict_prefix (joinpath [] model) (butlast p) \<and> is_dir fs (butlast p)
            \<and> butlast p \<in> set (map fst fs))}"
    using frame_paths_set [of fs model] by simp
  from run len frame_paths_sorted [of fs model] found show ?thesis
    by simp
qed

lemma build_gif_encodes_sorted_image_files_example:
  "build_gif Some (\<lambda>frames duration loop. concat frames) (ymd2ord 2024 1 3) ''KFWD''
     [([], Dir), ([''gifs''], Dir), ([''KFWD''], Dir),
      ([''KFWD'', ''20240102_120000_KFWD.png''], File ''B''),
      ([''KFWD'', ''20240102_000000_KFWD.png''], File ''A'')]
   = (Inr (),
      [([], Dir), ([''gifs''], Dir), ([''KFWD''], Dir),
       ([''KFWD'', ''20240102_120000_KFWD.png''], File ''B''),
       ([''KFWD'', ''20240102_000000_KFWD.png''], File ''A''),
       ([''gifs'', ''KFWD_2024-01-03.gif''], File ''AB'')])"
proof -
  let ?fs = "[([], Dir), ([''gifs''], Dir), ([''KFWD''], Dir),
      ([''KFWD'', ''20240102_120000_KFWD.png''], File ''B''),
      ([''KFWD'', ''20240102_000000_KFWD.png''], File ''A'')]"
  have paths: "frame_paths ?fs ''KFWD''
      = [[''KFWD'', ''20240102_000000_KFWD.png''], [''KFWD'', ''20240102_120000_KFWD.png'']]"
    by code_simp
  have out: "gif_path (ymd2ord 2024 1 3) ''KFWD'' = [''gifs'', ''KFWD_2024-01-03.gif'']"
    by code_simp
  have nonempty: "frame_paths ?fs ''KFWD'' \<noteq> []"
    unfolding paths by simp
  have images: "list_all2
      (\<lambda>p frame. \<exists>data. map_of ?fs p = Some (File data) \<and> Some data = Some frame)
      (frame_paths ?fs ''KFWD'') [''A'', ''B'']"
    unfolding paths by simp
  have parent: "is_dir ?fs (butlast (gif_path (ymd2ord 2024 1 3) ''KFWD''))"
    unfolding out by (simp add: is_dir_def)
  have nodir: "\<not> is_dir ?fs (gif_path (ymd2ord 2024 1 3) ''KFWD'')"
    unfolding out by (simp add: is_dir_def)
  have fresh: "gif_path (ymd2ord 2024 1 3) ''KFWD'' \<notin> set (frame_paths ?fs ''KFWD'')"
    unfolding out paths by simp
  from build_gif_encodes_sorted_image_files
    [of ?fs "''KFWD''" Some "[''A'', ''B'']" "ymd2ord 2024 1 3" "\<lambda>frames duration loop. concat frames",
     OF nonempty images parent nodir fresh]
  show ?thesis
    unfolding out by simp
qed

text \<open>
  Claim C7. The animation is meant to hold one frame for each file found under the cache
  subdirectory of the model, which is searched recursively, in the sorted order of the
  paths. The recursive search returns the directories below the subdirectory as well, and
  \<^verbatim>\<open>build_gif\<close>, unlike the two other searches of the program, does not keep only the
  files. With a cache that holds the directory \<open>2023\<close> beside an image, three entries are
  found, two of them files; the first of the sorted list is the directory, opening it as an
  image raises \<^verbatim>\<open>IsADirectoryError\<close>, and no animation is written, whatever the decoder
  and the encoder are.
\<close>

theorem build_gif_raises_on_cache_subdirectory:
  "frame_paths
     [([], Dir), ([''gifs''], Dir), ([''KFWD''], Dir),
      ([''KFWD'', ''20240102_000000_KFWD.png''], File ''A''),
      ([''KFWD'', ''2023''], Dir),
      ([''KFWD'', ''2023'', ''20231231_120000_KFWD.png''], File ''B'')]
     ''KFWD''
   = [[''KFWD'', ''2023''],
      [''KFWD'', ''2023'', ''20231231_120000_KFWD.png''],
      [''KFWD'', ''20240102_000000_KFWD.png'']]
   \<and> build_gif decode encode (ymd2ord 2024 1 3) ''KFWD''
     [([], Dir), ([''gifs''], Dir), ([''KFWD''], Dir),
      ([''KFWD'', ''20240102_000000_KFWD.png''], File ''A''),
      ([''KFWD'', ''2023''], Dir),
      ([''KFWD'', ''2023'', ''20231231_120000_KFWD.png''], File ''B'')]
   = (Inl IsADirectoryError,
      [([], Dir), ([''gifs''], Dir), ([''KFWD''], Dir),
       ([''KFWD'', ''20240102_000000_KFWD.png''], File ''A''),
       ([''KFWD'', ''2023''], Dir),
       ([''KFWD'', ''2023'', ''20231231_120000_KFWD.png''], File ''B'')])"
proof -
  let ?fs = "[([], Dir), ([''gifs''], Dir), ([''KFWD''], Dir),
      ([''KFWD'', ''20240102_000000_KFWD.png''], File ''A''),
      ([''KFWD'', ''2023''], Dir),
      ([''KFWD'', ''2023'', ''20231231_120000_KFWD.png''], File ''B'')]"
  have paths: "frame_paths ?fs ''KFWD''
      = [[''KFWD'', ''2023''],
         [''KFWD'', ''2023'', ''20231231_120000_KFWD.png''],
         [''KFWD'', ''20240102_000000_KFWD.png'']]"
    by code_simp
  have first: "image_open decode ?fs [''KFWD'', ''2023''] = Inl IsADirectoryError"
    by (simp add: image_open_def)
  have "build_gif decode encode (ymd2ord 2024 1 3) ''KFWD'' ?fs = (Inl IsADirectoryError, ?fs)"
    unfolding build_gif_def paths by (simp only: first list.case sum.case)
  with paths show ?thesis by (rule conjI)
qed

section \<open>Properties of the report publisher\<close>

lemma todays_gifs_files: "todays_gifs today fs = Inr gifs \<Longrightarrow> gif \<in> set gifs \<Longrightarrow> is_file fs gif"
  by (auto simp add: todays_gifs_def split: sum.splits)

lemma read_bytes_file: "is_file fs p \<Longrightarrow> \<exists>data. read_bytes fs p = Inr data"
  by (auto simp add: is_file_def read_bytes_def split: option.splits node.splits)

lemma record_file_id_result:
  assumes "mname \<in> fst ` set model_map"
  shows "\<exists>model_dict. map_of model_map mname = Some model_dict
           \<and> record_file_id model_map mname fid
               = Inr (dict_set model_map mname (dict_set model_dict ''gif-file-id'' fid))"
proof -
  from assms obtain model_dict where "map_of model_map mname = Some model_dict"
    by (cases "map_of model_map mname") (auto simp add: map_of_eq_None_iff)
  then show ?thesis
    by (simp add: record_file_id_def dict_item_def)
qed

lemma upload_loop_without_file_id:
  assumes "\<forall>gif \<in> set gifs. is_file fs gif"
    and "\<forall>gif \<in> set gifs. \<forall>data. read_bytes fs gif = Inr data \<longrightarrow>
           (\<exists>resp. files_upload_v2 client (map_of props ''private-chan'') data (model_of_gif gif)
                      = Inr resp
                  \<and> (ok resp \<longrightarrow> model_of_gif gif \<in> fst ` set (result_map st))
                  \<and> (model_of_gif gif = m \<longrightarrow> \<not> ok resp))"
    and "map_of (result_map st) m = Some d"
    and "\<forall>(k, e) \<in> set (result_map st). map_of e ''name'' \<noteq> None"
  shows "\<exists>st'. upload_loop client props fs gifs st = (Inr (), st')
           \<and> uploads st' = uploads st @ map model_of_gif gifs
           \<and> map_of (result_map st') m = Some d
           \<and> (\<forall>(k, e) \<in> set (result_map st'). map_of e ''name'' \<noteq> None)
           \<and> posted st' = posted st \<and> paused st' = paused st"
  using assms
proof (induction gifs arbitrary: st)
  case Nil
  then show ?case by simp
next
  case (Cons gif gifs)
  let ?mname = "model_of_gif gif"
  from Cons.prems(1) obtain data where data: "read_bytes fs gif = Inr data"
    using read_bytes_file [of fs gif] by auto
  with Cons.prems(2) obtain resp where
    resp: "files_upload_v2 client (map_of props ''private-chan'') data ?mname = Inr resp"
    and known: "ok resp \<Longrightarrow> ?mname \<in> fst ` set (result_map st)"
    and failed: "?mname = m \<Longrightarrow> \<not> ok resp"
    by auto
  let ?st1 = "st\<lparr>uploads := uploads st @ [?mname]\<rparr>"
  show ?case
  proof (cases "ok resp")
    case False
    have step: "upload_loop client props fs (gif # gifs) st = upload_loop client props fs gifs ?st1"
      using data resp False by (simp add: Let_def)
    have "\<exists>st'. upload_loop client props fs gifs ?st1 = (Inr (), st')
           \<and> uploads st' = uploads ?st1 @ map model_of_gif gifs
           \<and> map_of (result_map st') m = Some d
           \<and> (\<forall>(k, e) \<in> set (result_map st'). map_of e ''name'' \<noteq> None)
           \<and> posted st' = posted ?st1 \<and> paused st' = paused ?st1"
      using Cons.prems by (intro Cons.IH) auto
    then show ?thesis
      unfolding step by auto
  next
    case True
    then have other: "?mname \<noteq> m" using failed by auto
    from record_file_id_result [OF known [OF True], of "file_id resp"]
    obtain model_dict where
      entry: "map_of (result_map st) ?mname = Some model_dict"
      and rec: "record_file_id (result_map st) ?mname (file_id resp)
        = Inr (dict_set (result_map st) ?mname (dict_set model_dict ''gif-file-id'' (file_id resp)))"
      by auto
    let ?map = "dict_set (result_map st) ?mname (dict_set model_dict ''gif-file-id'' (file_id resp))"
    let ?st2 = "?st1\<lparr>result_map := ?map\<rparr>"
    have step: "upload_loop client props fs (gif # gifs) st = upload_loop client props fs gifs ?st2"
      using data resp True rec by (simp add: Let_def)
    have keys: "fst ` set ?map = fst ` set (result_map st)"
      using known [OF True] dict_set_keys [of "result_map st" ?mname
          "dict_set model_dict ''gif-file-id'' (file_id resp)"]
      by (metis list.set_map)
    have "(?mname, model_dict) \<in> set (result_map st)"
      using entry by (rule map_of_SomeD)
    then have named: "map_of model_dict ''name'' \<noteq> None"
      using Cons.prems(4) by auto
    have names: "map_of e ''name'' \<noteq> None" if "(k, e) \<in> set ?map" for k e
    proof -
      from that have "(k, e) = (?mname, dict_set model_dict ''gif-file-id'' (file_id resp))
          \<or> (k, e) \<in> set (result_map st)"
        by (rule set_dict_set)
      then show ?thesis
        using named Cons.prems(4) by (auto simp add: map_of_dict_set)
    qed
    have "\<exists>st'. upload_loop client props fs gifs ?st2 = (Inr (), st')
           \<and> uploads st' = uploads ?st2 @ map model_of_gif gifs
           \<and> map_of (result_map st') m = Some d
           \<and> (\<forall>(k, e) \<in> set (result_map st'). map_of e ''name'' \<noteq> None)
           \<and> posted st' = posted ?st2 \<and> paused st' = paused ?st2"
    proof (intro Cons.IH)
      show "\<forall>gif \<in> set gifs. is_file fs gif" using Cons.prems(1) by simp
      show "\<forall>gif \<in> set gifs. \<forall>data. read_bytes fs gif = Inr data \<longrightarrow>
           (\<exists>resp. files_upload_v2 client (map_of props ''private-chan'') data (model_of_gif gif)
                      = Inr resp
                  \<and> (ok resp \<longrightarrow> model_of_gif gif \<in> fst ` set (result_map ?st2))
                  \<and> (model_of_gif gif = m \<longrightarrow> \<not> ok resp))"
        using Cons.prems(2) keys by simp
      show "map_of (result_map ?st2) m = Some d"
        using Cons.prems(3) other by (simp add: map_of_dict_set)
      show "\<forall>(k, e) \<in> set (result_map ?st2). map_of e ''name'' \<noteq> None"
        using names by auto
    qed
    then show ?thesis
      unfolding step by auto
  qed
qed

lemma append_blocks_missing_file_id:
  assumes "(m, d) \<in> set entries"
    and "map_of d ''gif-file-id'' = None"
    and "\<forall>(k, e) \<in> set entries. map_of e ''name'' \<noteq> None"
  shows "append_blocks entries blocks = Inl (KeyError ''gif-file-id'')"
  using assms
proof (induction entries arbitrary: blocks)
  case Nil
  then show ?case by simp
next
  case (Cons entry entries)
  obtain k e where entry: "entry = (k, e)" by (cases entry)
  from Cons.prems(3) obtain title where title: "map_of e ''name'' = Some title"
    unfolding entry by auto
  show ?case
  proof (cases "map_of e ''gif-file-id''")
    case None
    then show ?thesis
      unfolding entry using title by (simp add: dict_item_def)
  next
    case (Some fid)
    then have "(m, d) \<in> set entries"
      using Cons.prems(1,2) unfolding entry by auto
    then have "append_blocks entries (blocks @ [image_block title fid] @ [divider_block])
        = Inl (KeyError ''gif-file-id'')"
      using Cons.prems(2,3) by (intro Cons.IH) auto
    then show ?thesis
      unfolding entry using title Some by (simp add: dict_item_def)
  qed
qed

lemma length_model_blocks:
  "length (concat (map (\<lambda>(title, fid). [image_block title fid, divider_block]) shown))
     = 2 * length shown"
  by (induction shown) auto

lemma append_blocks_entries:
  assumes "list_all2
      (\<lambda>(mname, model_dict) (title, fid).
         map_of model_dict ''name'' = Some title \<and> map_of model_dict ''gif-file-id'' = Some fid)
      entries shown"
  shows "append_blocks entries blocks
     = Inr (blocks @ concat (map (\<lambda>(title, fid). [image_block title fid, divider_block]) shown))"
  using assms
  by (induction arbitrary: blocks rule: list_all2_induct) (auto simp add: dict_item_def)

text \<open>
  Claim C5. Let one model have an entry in the model result map that holds no
  \<^verbatim>\<open>gif-file-id\<close>, let the upload of every animation of that model be answered with a
  response that is not \<^verbatim>\<open>ok\<close>, and let there be such an animation among today's; let the
  client answer every upload, let the models of the uploads that succeed be in the map,
  and let every entry of the map have a \<^verbatim>\<open>name\<close>. Then the upload loop goes through all
  the animations, those after the failed one too, the entry of the model is left as it
  was, without \<^verbatim>\<open>gif-file-id\<close>, and the composition of the message raises
  \<^verbatim>\<open>KeyError('gif-file-id')\<close>; nothing is posted.
\<close>

theorem send_slack_message_blocks_failed_upload_raises_key_error:
  assumes "todays_gifs today fs = Inr gifs"
    and "failed \<in> set gifs" and "model_of_gif failed = m"
    and "map_of (result_map st) m = Some d"
    and "map_of d ''gif-file-id'' = None"
    and "\<forall>gif \<in> set gifs. \<forall>data. read_bytes fs gif = Inr data \<longrightarrow>
           (\<exists>resp. files_upload_v2 bot_client (map_of props ''private-chan'') data (model_of_gif gif)
                      = Inr resp
                  \<and> (ok resp \<longrightarrow> model_of_gif gif \<in> fst ` set (result_map st))
                  \<and> (model_of_gif gif = m \<longrightarrow> \<not> ok resp))"
    and "\<forall>(k, e) \<in> set (result_map st). map_of e ''name'' \<noteq> None"
  shows "\<exists>st'. send_slack_message_blocks today fs props bot_client st
                  = (Inl (KeyError ''gif-file-id''), st')
           \<and> uploads st' = uploads st @ map model_of_gif gifs
           \<and> map_of (result_map st') m = Some d
           \<and> posted st' = posted st"
proof -
  have "\<forall>gif \<in> set gifs. is_file fs gif"
    using assms(1) by (auto dest: todays_gifs_files)
  from upload_loop_without_file_id [OF this assms(6) assms(4) assms(7)]
  obtain st' where loop: "upload_loop bot_client props fs gifs st = (Inr (), st')"
    and ups: "uploads st' = uploads st @ map model_of_gif gifs"
    and entry: "map_of (result_map st') m = Some d"
    and names: "\<forall>(k, e) \<in> set (result_map st'). map_of e ''name'' \<noteq> None"
    and same: "posted st' = posted st"
    by blast
  have "(m, d) \<in> set (result_map st')"
    using entry by (rule map_of_SomeD)
  then have "append_blocks (result_map st') [header_block today] = Inl (KeyError ''gif-file-id'')"
    using assms(5) names by (rule append_blocks_missing_file_id)
  then have "send_slack_message_blocks today fs props bot_client st
      = (Inl (KeyError ''gif-file-id''), st')"
    using assms(1) loop by (simp add: send_slack_message_blocks_def)
  with ups entry same show ?thesis by blast
qed

theorem send_slack_message_blocks_failed_upload_raises_key_error_witness:
  "\<exists>st'. send_slack_message_blocks (ymd2ord 2024 1 3)
       [([], Dir), ([''gifs''], Dir),
        ([''gifs'', ''KFWD_2024-01-03.gif''], File ''G1''),
        ([''gifs'', ''upaCNTR_200_2024-01-03.gif''], File ''G2''),
        ([''gifs'', ''KFWD_2024-01-02.gif''], File ''G0'')]
       [(''private-chan'', ''C1''), (''public-chan'', ''C2'')]
       \<lparr>files_upload_v2 = (\<lambda>channel file title.
            Inr \<lparr>ok = (title \<noteq> ''KFWD''), file_id = ''F-'' @ title\<rparr>),
        chat_postMessage = (\<lambda>channel text blocks. Inr ())\<rparr>
       \<lparr>result_map = [(''upaCNTR_200'', [(''name'', ''Winds @ 200mb''), (''filetype'', ''.gif'')]),
                      (''KFWD'', [(''name'', ''Skew-T/Log-P''), (''filetype'', ''.png'')])],
        uploads = [], posted = [], paused = 0\<rparr>
     = (Inl (KeyError ''gif-file-id''), st')
     \<and> uploads st' = [''KFWD'', ''upaCNTR_200'']
     \<and> map_of (result_map st') ''KFWD'' = Some [(''name'', ''Skew-T/Log-P''), (''filetype'', ''.png'')]
     \<and> posted st' = []"
proof -
  let ?today = "ymd2ord 2024 1 3"
  let ?fs = "[([], Dir), ([''gifs''], Dir),
        ([''gifs'', ''KFWD_2024-01-03.gif''], File ''G1''),
        ([''gifs'', ''upaCNTR_200_2024-01-03.gif''], File ''G2''),
        ([''gifs'', ''KFWD_2024-01-02.gif''], File ''G0'')]"
  let ?props = "[(''private-chan'', ''C1''), (''public-chan'', ''C2'')]"
  let ?client = "\<lparr>files_upload_v2 = (\<lambda>channel file title.
            Inr \<lparr>ok = (title \<noteq> ''KFWD''), file_id = ''F-'' @ title\<rparr>),
        chat_postMessage = (\<lambda>channel text blocks. Inr ())\<rparr>"
  let ?st = "\<lparr>result_map = [(''upaCNTR_200'', [(''name'', ''Winds @ 200mb''), (''filetype'', ''.gif'')]),
                      (''KFWD'', [(''name'', ''Skew-T/Log-P''), (''filetype'', ''.png'')])],
        uploads = [], posted = [], paused = 0\<rparr>"
  let ?gifs = "[[''gifs'', ''KFWD_2024-01-03.gif''], [''gifs'', ''upaCNTR_200_2024-01-03.gif'']]"
  have gifs: "todays_gifs ?today ?fs = Inr ?gifs"
    by code_simp
  have kfwd: "model_of_gif [''gifs'', ''KFWD_2024-01-03.gif''] = ''KFWD''"
    by code_simp
  have upa: "model_of_gif [''gifs'', ''upaCNTR_200_2024-01-03.gif''] = ''upaCNTR_200''"
    by code_simp
  have failed: "[''gifs'', ''KFWD_2024-01-03.gif''] \<in> set ?gifs"
    by simp
  have entry: "map_of (result_map ?st) ''KFWD''
      = Some [(''name'', ''Skew-T/Log-P''), (''filetype'', ''.png'')]"
    by simp
  have no_id: "map_of [(''name'', ''Skew-T/Log-P''), (''filetype'', ''.png'')] ''gif-file-id'' = None"
    by simp
  have answers: "\<forall>gif \<in> set ?gifs. \<forall>data. read_bytes ?fs gif = Inr data \<longrightarrow>
      (\<exists>resp. files_upload_v2 ?client (map_of ?props ''private-chan'') data (model_of_gif gif)
                 = Inr resp
             \<and> (ok resp \<longrightarrow> model_of_gif gif \<in> fst ` set (result_map ?st))
             \<and> (model_of_gif gif = ''KFWD'' \<longrightarrow> \<not> ok resp))"
    by (simp add: kfwd upa)
  have names: "\<forall>(k, e) \<in> set (result_map ?st). map_of e ''name'' \<noteq> None"
    by simp
  from send_slack_message_blocks_failed_upload_raises_key_error
    [OF gifs failed kfwd entry no_id answers names]
  show ?thesis
    by (simp add: kfwd upa)
qed

text \<open>
  Claim C9. When the upload loop has completed and every model of the result map has a
  \<^verbatim>\<open>name\<close> and a \<^verbatim>\<open>gif-file-id\<close>, the message posted to the public channel consists of the
  header block, whose text is \<open>WX Report for\<close> and today's date as year, month and day,
  followed, for each model in the order of the map, by the image block whose title is the
  name of the model and whose \<^verbatim>\<open>slack_file\<close> refers to the uploaded file of the model by
  its \<^verbatim>\<open>id\<close>, and a divider block: \<open>1 + 2 * n\<close> blocks for \<open>n\<close> models.
\<close>

theorem send_slack_message_blocks_composes_header_and_model_blocks:
  assumes "todays_gifs today fs = Inr gifs"
    and "upload_loop bot_client props fs gifs st = (Inr (), st1)"
    and "list_all2
      (\<lambda>(mname, model_dict) (title, fid).
         map_of model_dict ''name'' = Some title \<and> map_of model_dict ''gif-file-id'' = Some fid)
      (result_map st1) shown"
    and "map_of props ''public-chan'' = Some channel"
    and "blocks =
      JObject [(''type'', JString ''header''),
               (''text'', JObject [(''type'', JString ''plain_text''),
                                   (''text'', JString (''WX Report for '' @ strftime_F today)),
                                   (''emoji'', JBool True)])]
      # concat (map (\<lambda>(title, fid).
          [JObject [(''type'', JString ''image''),
                    (''title'', JObject [(''type'', JString ''plain_text''),
                                         (''text'', JString title),
                                         (''emoji'', JBool True)]),
                    (''slack_file'', JObject [(''id'', JString fid)]),
                    (''alt_text'', JString ''poopie'')],
           JObject [(''type'', JString ''divider'')]]) shown)"
    and "chat_postMessage bot_client channel ''Daily WX report incoming!'' blocks = Inr ()"
  shows "send_slack_message_blocks today fs props bot_client st
           = (Inr (), st1\<lparr>paused := paused st1 + 3,
                         posted := posted st1 @ [(channel, ''Daily WX report incoming!'', blocks)]\<rparr>)
         \<and> length blocks = 1 + 2 * length (result_map st1)
         \<and> (\<exists>year month day.
               (1 \<le> today \<longrightarrow> ymd2ord year month day = today)
             \<and> strftime_F today = zfill 4 (str_nat (nat year)) @ ''-''
                 @ zfill 2 (str_nat (nat month)) @ ''-'' @ zfill 2 (str_nat (nat day)))"
proof -
  have folded: "blocks = header_block today
      # concat (map (\<lambda>(title, fid). [image_block title fid, divider_block]) shown)"
    unfolding assms(5) by (simp add: header_block_def image_block_def divider_block_def)
  have composed: "append_blocks (result_map st1) [header_block today] = Inr blocks"
    using append_blocks_entries [OF assms(3), of "[header_block today]"] folded by simp
  have run: "send_slack_message_blocks today fs props bot_client st
      = (Inr (), st1\<lparr>paused := paused st1 + 3,
                    posted := posted st1 @ [(channel, ''Daily WX report incoming!'', blocks)]\<rparr>)"
    unfolding send_slack_message_blocks_def
    by (simp only: assms(1,2,4,6) composed dict_item_def sum.case prod.case option.case Let_def)
      simp
  have "length shown = length (result_map st1)"
    using assms(3) by (simp add: list_all2_lengthD)
  then have len: "length blocks = 1 + 2 * length (result_map st1)"
    unfolding folded by (simp add: length_model_blocks)
  obtain y m d where o: "ord2ymd today = (y, m, d)"
    by (cases "ord2ymd today") blast
  have fmt: "strftime_F today = zfill 4 (str_nat (nat y)) @ ''-''
      @ zfill 2 (str_nat (nat m)) @ ''-'' @ zfill 2 (str_nat (nat d))"
    by (simp add: strftime_F_def o)
  have "1 \<le> today \<longrightarrow> ymd2ord y m d = today"
    using ord2ymd_correct [OF _ o] by simp
  with fmt have date: "\<exists>year month day.
        (1 \<le> today \<longrightarrow> ymd2ord year month day = today)
      \<and> strftime_F today = zfill 4 (str_nat (nat year)) @ ''-''
          @ zfill 2 (str_nat (nat month)) @ ''-'' @ zfill 2 (str_nat (nat day))"
    by blast
  from run len date show ?thesis by (intro conjI)
qed

theorem send_slack_message_blocks_composes_header_and_model_blocks_witness:
  "send_slack_message_blocks (ymd2ord 2024 1 3)
       [([], Dir), ([''gifs''], Dir),
        ([''gifs'', ''KFWD_2024-01-03.gif''], File ''G1''),
        ([''gifs'', ''upaCNTR_200_2024-01-03.gif''], File ''G2''),
        ([''gifs'', ''KFWD_2024-01-02.gif''], File ''G0'')]
       [(''private-chan'', ''C1''), (''public-chan'', ''C2'')]
       \<lparr>files_upload_v2 = (\<lambda>channel file title. Inr \<lparr>ok = True, file_id = ''F-'' @ title\<rparr>),
        chat_postMessage = (\<lambda>channel text blocks. Inr ())\<rparr>
       \<lparr>result_map = [(''upaCNTR_200'', [(''name'', ''Winds @ 200mb''), (''filetype'', ''.gif'')]),
                      (''KFWD'', [(''name'', ''Skew-T/Log-P''), (''filetype'', ''.png'')])],
        uploads = [], posted = [], paused = 0\<rparr>
     = (Inr (),
        \<lparr>result_map =
           [(''upaCNTR_200'', [(''name'', ''Winds @ 200mb''), (''filetype'', ''.gif''),
                               (''gif-file-id'', ''F-upaCNTR_200'')]),
            (''KFWD'', [(''name'', ''Skew-T/Log-P''), (''filetype'', ''.png''),
                        (''gif-file-id'', ''F-KFWD'')])],
         uploads = [''KFWD'', ''upaCNTR_200''],
         posted = [(''C2'', ''Daily WX report incoming!'',
                    [JObject [(''type'', JString ''header''),
                              (''text'', JObject [(''type'', JString ''plain_text''),
                                                  (''text'', JString ''WX Report for 2024-01-03''),
                                                  (''emoji'', JBool True)])],
                     JObject [(''type'', JString ''image''),
                              (''title'', JObject [(''type'', JString ''plain_text''),
                                                   (''text'', JString ''Winds @ 200mb''),
                                                   (''emoji'', JBool True)]),
                              (''slack_file'', JObject [(''id'', JString ''F-upaCNTR_200'')]),
                              (''alt_text'', JString ''poopie'')],
                     JObject [(''type'', JString ''divider'')],
                     JObject [(''type'', JString ''image''),
                              (''title'', JObject [(''type'', JString ''plain_text''),
                                                   (''text'', JString ''Skew-T/Log-P''),
                                                   (''emoji'', JBool True)]),
                              (''slack_file'', JObject [(''id'', JString ''F-KFWD'')]),
                              (''alt_text'', JString ''poopie'')],
                     JObject [(''type'', JString ''divider'')]])],
         paused = 3\<rparr>)"
proof -
  let ?today = "ymd2ord 2024 1 3"
  let ?fs = "[([], Dir), ([''gifs''], Dir),
        ([''gifs'', ''KFWD_2024-01-03.gif''], File ''G1''),
        ([''gifs'', ''upaCNTR_200_2024-01-03.gif''], File ''G2''),
        ([''gifs'', ''KFWD_2024-01-02.gif''], File ''G0'')]"
  let ?props = "[(''private-chan'', ''C1''), (''public-chan'', ''C2'')]"
  let ?client = "\<lparr>files_upload_v2 = (\<lambda>channel file title. Inr \<lparr>ok = True, file_id = ''F-'' @ title\<rparr>),
        chat_postMessage = (\<lambda>channel text blocks. Inr ())\<rparr>"
  let ?st = "\<lparr>result_map = [(''upaCNTR_200'', [(''name'', ''Winds @ 200mb''), (''filetype'', ''.gif'')]),
                      (''KFWD'', [(''name'', ''Skew-T/Log-P''), (''filetype'', ''.png'')])],
        uploads = [], posted = [], paused = 0\<rparr>"
  let ?st1 = "\<lparr>result_map =
           [(''upaCNTR_200'', [(''name'', ''Winds @ 200mb''), (''filetype'', ''.gif''),
                               (''gif-file-id'', ''F-upaCNTR_200'')]),
            (''KFWD'', [(''name'', ''Skew-T/Log-P''), (''filetype'', ''.png''),
                        (''gif-file-id'', ''F-KFWD'')])],
         uploads = [''KFWD'', ''upaCNTR_200''], posted = [], paused = 0\<rparr>"
  let ?gifs = "[[''gifs'', ''KFWD_2024-01-03.gif''], [''gifs'', ''upaCNTR_200_2024-01-03.gif'']]"
  let ?shown = "[(''Winds @ 200mb'', ''F-upaCNTR_200''), (''Skew-T/Log-P'', ''F-KFWD'')]"
  let ?blocks = "JObject [(''type'', JString ''header''),
               (''text'', JObject [(''type'', JString ''plain_text''),
                                   (''text'', JString (''WX Report for '' @ strftime_F ?today)),
                                   (''emoji'', JBool True)])]
      # concat (map (\<lambda>(title, fid).
          [JObject [(''type'', JString ''image''),
                    (''title'', JObject [(''type'', JString ''plain_text''),
                                         (''text'', JString title),
                                         (''emoji'', JBool True)]),
                    (''slack_file'', JObject [(''id'', JString fid)]),
                    (''alt_text'', JString ''poopie'')],
           JObject [(''type'', JString ''divider'')]]) ?shown)"
  have gifs: "todays_gifs ?today ?fs = Inr ?gifs"
    by code_simp
  have kfwd: "model_of_gif [''gifs'', ''KFWD_2024-01-03.gif''] = ''KFWD''"
    by code_simp
  have upa: "model_of_gif [''gifs'', ''upaCNTR_200_2024-01-03.gif''] = ''upaCNTR_200''"
    by code_simp
  have day: "strftime_F ?today = ''2024-01-03''"
    by code_simp
  have loop: "upload_loop ?client ?props ?fs ?gifs ?st = (Inr (), ?st1)"
    by (simp add: kfwd upa read_bytes_def record_file_id_def dict_item_def Let_def)
  have shown: "list_all2
      (\<lambda>(mname, model_dict) (title, fid).
         map_of model_dict ''name'' = Some title \<and> map_of model_dict ''gif-file-id'' = Some fid)
      (result_map ?st1) ?shown"
    by simp
  have chan: "map_of ?props ''public-chan'' = Some ''C2''"
    by simp
  have post: "chat_postMessage ?client ''C2'' ''Daily WX report incoming!'' ?blocks = Inr ()"
    by simp
  from send_slack_message_blocks_composes_header_and_model_blocks
    [where blocks = ?blocks, OF gifs loop shown chan refl post]
  show ?thesis
    by (simp add: day)
qed

end
